theory Spec2Isabelle
  imports Main "HOL-Library.AList"
begin

section \<open>JavaScript values, strings and buffers\<close>

text \<open>
  A field of an inbound JSON message is any JSON value, or absent (\<open>undefined\<close>).
  Numbers are modelled as integers. The hub never reads a property of an array or an
  object, but it converts values to a number or a string, and that conversion throws a
  \<open>TypeError\<close> for an object that has a property \<open>toString\<close> of its own (which, coming
  from \<open>JSON.parse\<close>, is no function) and for an array holding such an object: the flag of
  \<open>JObject\<close> is true for these, and false for every other array or object.
\<close>

datatype jsval = JUndefined | JNull | JBool bool | JNum int | JStr string | JObject bool

fun truthy :: "jsval \<Rightarrow> bool" where
  "truthy JUndefined = False"
| "truthy JNull = False"
| "truthy (JBool b) = b"
| "truthy (JNum n) = (n \<noteq> 0)"
| "truthy (JStr s) = (s \<noteq> [])"
| "truthy (JObject b) = True"

text \<open>The JavaScript expression \<open>a || b\<close>.\<close>

definition js_or :: "jsval \<Rightarrow> jsval \<Rightarrow> jsval" where
  "js_or a b = (if truthy a then a else b)"

text \<open>
  A string is the list of its bytes (ASCII for every identifier the hub mints), and a
  \<open>Buffer\<close> is a list of bytes as well, so \<open>Buffer.toString()\<close> and
  \<open>Buffer.write(string)\<close> are the identity on the bytes.
\<close>

type_synonym buffer = "char list"

datatype error = TypeError

text \<open>
  The conversion of a value to a primitive one, as the operand of \<open>/\<close> or inside a
  template literal, throws for the objects flagged so and for nothing else.
\<close>

fun toPrimitive_throws :: "jsval \<Rightarrow> bool" where
  "toPrimitive_throws (JObject b) = b"
| "toPrimitive_throws v = False"

text \<open>
  A call either returns or throws; in both cases it has reached a state and has sent
  frames.
\<close>

datatype 'a outcome = Returns 'a | Throws error 'a

fun reached :: "'a outcome \<Rightarrow> 'a" where
  "reached (Returns x) = x"
| "reached (Throws err x) = x"

fun returned :: "'a outcome \<Rightarrow> 'a option" where
  "returned (Returns x) = Some x"
| "returned (Throws err x) = None"

text \<open>
  \<open>String.prototype.toUpperCase\<close>. On a string of ASCII characters it maps the letters
  \<open>a\<close> to \<open>z\<close> to \<open>A\<close> to \<open>Z\<close> and keeps every other character. On a string with a
  character outside ASCII it follows the case table of Unicode (which maps, for
  instance, U+017F to \<open>S\<close>); that table is not part of the hub and is the parameter
  \<open>u\<close>.
\<close>

definition upper_char :: "char \<Rightarrow> char" where
  "upper_char c =
     (case map_of (zip ''abcdefghijklmnopqrstuvwxyz'' ''ABCDEFGHIJKLMNOPQRSTUVWXYZ'') c of
        None \<Rightarrow> c | Some u \<Rightarrow> u)"

definition ascii :: "string \<Rightarrow> bool" where
  "ascii s = list_all (\<lambda>c. \<not> digit7 c) s"

definition toUpperCase :: "(string \<Rightarrow> string) \<Rightarrow> string \<Rightarrow> string" where
  "toUpperCase u s = (if ascii s then map upper_char s else u s)"

text \<open>
  \<open>message.sessionCode?.toUpperCase()\<close>: \<open>undefined\<close> for an absent or null field, the
  upper-cased string for a string, and a \<open>TypeError\<close> for any other value, which has no
  method \<open>toUpperCase\<close>.
\<close>

fun sessionCode_toUpperCase :: "(string \<Rightarrow> string) \<Rightarrow> jsval \<Rightarrow> error + string option" where
  "sessionCode_toUpperCase u JUndefined = Inr None"
| "sessionCode_toUpperCase u JNull = Inr None"
| "sessionCode_toUpperCase u (JStr s) = Inr (Some (toUpperCase u s))"
| "sessionCode_toUpperCase u v = Inl TypeError"

section \<open>The data model of the hub\<close>

text \<open>
  A JavaScript \<open>Map\<close> keeps its entries in insertion order: it is an association list,
  read with \<open>map_of\<close>, written with \<open>AList.update\<close> (in place for a key that is present,
  at the end for a new one) and \<open>AList.delete\<close>.
\<close>

type_synonym ws = nat

datatype ready_state = CONNECTING | OPEN | CLOSING | CLOSED

record device =
  id_dev :: string
  ws_dev :: ws
  name_dev :: jsval
  type_dev :: jsval
  connectedAt :: int

record stored_file =
  id_file :: string
  originalName :: jsval
  size_file :: jsval
  mimetype :: jsval
  uploadedAt :: int
  chunks :: "buffer list"
  receivedSize :: nat
  uploaderId :: string
  data :: "buffer option"

record session =
  devices :: "(string \<times> device) list"
  files :: "(string \<times> stored_file) list"
  createdAt :: int

text \<open>
  The state of the process: the two global maps, the usage counters, the \<open>readyState\<close> of
  every socket (owned by the WebSocket library, read by the broadcaster) and the session
  codes of the pending \<open>setTimeout\<close> callbacks, oldest first.
\<close>

record hub =
  sessions :: "(string \<times> session) list"
  deviceToSession :: "(string \<times> string) list"
  totalUsers :: int
  totalSessions :: int
  sockets :: "ws \<Rightarrow> ready_state"
  timers :: "string list"

definition initial :: hub where
  "initial = \<lparr>sessions = [], deviceToSession = [], totalUsers = 0, totalSessions = 0,
     sockets = (\<lambda>_. OPEN), timers = []\<rparr>"

subsection \<open>Frames\<close>

record file_info =
  id_info :: string
  originalName_info :: jsval
  size_info :: jsval
  mimetype_info :: jsval
  uploadedAt_info :: int

definition info_of :: "stored_file \<Rightarrow> file_info" where
  "info_of f = \<lparr>id_info = id_file f, originalName_info = originalName f,
     size_info = size_file f, mimetype_info = mimetype f, uploadedAt_info = uploadedAt f\<rparr>"

text \<open>
  What the hub sends: one constructor for each \<open>type\<close> of control frame, with its fields
  in the order of the source, and \<open>Binary\<close> for a data frame. The \<open>progress\<close> percentage
  of \<open>upload_progress\<close> is a floating-point quotient and is left out; \<open>received\<close> and
  \<open>total\<close> are kept.
\<close>

datatype frame =
    SessionCreated string string nat
  | SessionJoined string string nat
  | SessionError string
  | DeviceJoined string jsval jsval nat
  | DeviceLeft string nat
  | ExistingFiles "file_info list"
  | FileStartAck string jsval
  | UploadProgress string nat jsval
  | NewFile file_info
  | FileCompleteAck string
  | FileDownloadStart string jsval jsval jsval
  | FileDownloadComplete string
  | FileRemoved string
  | Pong
  | Binary buffer

text \<open>A call \<open>ws.send(frame)\<close> is recorded as the pair of the socket and the frame.\<close>

type_synonym send = "ws \<times> frame"

datatype message =
    create_session jsval jsval
  | join_session jsval jsval jsval
  | file_start jsval jsval jsval
  | file_complete jsval
  | request_file jsval
  | delete_file jsval
  | ping
  | unrecognised

text \<open>
  What a handler reads from outside the hub: the clock, the next \<open>uuidv4()\<close>, the
  sequence of the values \<open>Math.floor(Math.random() * chars.length)\<close> and the upper-casing
  of the strings that are not ASCII.
\<close>

record env =
  now :: int
  uuid :: string
  rnd :: "nat \<Rightarrow> nat"
  unicodeUpper :: "string \<Rightarrow> string"

section \<open>The code generator\<close>

definition chars :: string where
  "chars = ''ABCDEFGHJKLMNPQRSTUVWXYZ23456789''"

text \<open>\<open>String.prototype.charAt\<close>: the empty string out of range.\<close>

definition charAt :: "string \<Rightarrow> nat \<Rightarrow> string" where
  "charAt s i = (if i < length s then [s ! i] else [])"

text \<open>
  \<open>generateSessionCode\<close> draws six indices, here the draws \<open>p, \<dots>, p + 5\<close> of the
  sequence, and returns the code with the position of the next draw.
\<close>

definition generateSessionCode :: "(nat \<Rightarrow> nat) \<Rightarrow> nat \<Rightarrow> string \<times> nat" where
  "generateSessionCode r p = (concat (map (\<lambda>i. charAt chars (r (p + i))) [0..<6]), p + 6)"

text \<open>
  The loop \<open>while (sessions.has(sessionCode)) sessionCode = generateSessionCode()\<close>,
  which need not return.
\<close>

partial_function (option) retry_code ::
  "(nat \<Rightarrow> nat) \<Rightarrow> (string \<times> session) list \<Rightarrow> string \<times> nat \<Rightarrow> (string \<times> nat) option" where
  "retry_code r ss cp =
     (if map_of ss (fst cp) \<noteq> None then retry_code r ss (generateSessionCode r (snd cp))
      else Some cp)"

declare retry_code.simps [code]

section \<open>The broadcaster\<close>

definition broadcastToSession :: "hub \<Rightarrow> string \<Rightarrow> frame \<Rightarrow> string option \<Rightarrow> send list" where
  "broadcastToSession st sessionCode msg excludeId =
     (case map_of (sessions st) sessionCode of
        None \<Rightarrow> []
      | Some session \<Rightarrow>
          map (\<lambda>(i, device). (ws_dev device, msg))
            (filter (\<lambda>(i, device). Some i \<noteq> excludeId \<and> sockets st (ws_dev device) = OPEN)
               (devices session)))"

section \<open>The handlers of control frames\<close>

text \<open>
  The four lines every file handler starts with: the session code of the device in the
  index (an empty code is falsy) and the session of that code.
\<close>

definition session_of :: "hub \<Rightarrow> string \<Rightarrow> (string \<times> session) option" where
  "session_of st deviceId =
     (case map_of (deviceToSession st) deviceId of
        None \<Rightarrow> None
      | Some sessionCode \<Rightarrow>
          if sessionCode = [] then None
          else (case map_of (sessions st) sessionCode of
                  None \<Rightarrow> None
                | Some session \<Rightarrow> Some (sessionCode, session)))"

text \<open>The keys of \<open>session.files\<close> are strings: any other value of \<open>fileId\<close> finds nothing.\<close>

fun files_get :: "(string \<times> stored_file) list \<Rightarrow> jsval \<Rightarrow> (string \<times> stored_file) option" where
  "files_get fs (JStr k) = map_option (Pair k) (map_of fs k)"
| "files_get fs v = None"

definition set_session :: "hub \<Rightarrow> string \<Rightarrow> session \<Rightarrow> hub" where
  "set_session st sessionCode session =
     st\<lparr>sessions := AList.update sessionCode session (sessions st)\<rparr>"

definition set_file :: "hub \<Rightarrow> string \<Rightarrow> session \<Rightarrow> string \<Rightarrow> stored_file \<Rightarrow> hub" where
  "set_file st sessionCode session fileId f =
     set_session st sessionCode (session\<lparr>files := AList.update fileId f (files session)\<rparr>)"

definition new_device :: "ws \<Rightarrow> string \<Rightarrow> jsval \<Rightarrow> jsval \<Rightarrow> int \<Rightarrow> device" where
  "new_device w deviceId deviceName deviceType t =
     \<lparr>id_dev = deviceId, ws_dev = w,
      name_dev = js_or deviceName (JStr ''Unknown Device''),
      type_dev = js_or deviceType (JStr ''unknown''),
      connectedAt = t\<rparr>"

definition handle_create_session ::
  "hub \<Rightarrow> ws \<Rightarrow> string \<Rightarrow> jsval \<Rightarrow> jsval \<Rightarrow> env \<Rightarrow> (hub \<times> send list) option" where
  "handle_create_session st w deviceId deviceName deviceType e =
     (case retry_code (rnd e) (sessions st) (generateSessionCode (rnd e) 0) of
        None \<Rightarrow> None
      | Some (sessionCode, p) \<Rightarrow>
          let session = \<lparr>devices = AList.update deviceId
                            (new_device w deviceId deviceName deviceType (now e)) [],
                         files = [], createdAt = now e\<rparr>;
              st' = (set_session st sessionCode session)
                      \<lparr>deviceToSession := AList.update deviceId sessionCode (deviceToSession st),
                       totalUsers := totalUsers st + 1,
                       totalSessions := totalSessions st + 1\<rparr>
          in Some (st', [(w, SessionCreated sessionCode deviceId (length (devices session)))]))"

definition session_not_found :: string where
  "session_not_found = ''Session not found. Check the code and try again.''"

definition handle_join_session ::
  "hub \<Rightarrow> ws \<Rightarrow> string \<Rightarrow> jsval \<Rightarrow> jsval \<Rightarrow> jsval \<Rightarrow> env \<Rightarrow> error + hub \<times> send list" where
  "handle_join_session st w deviceId code deviceName deviceType e =
     (case sessionCode_toUpperCase (unicodeUpper e) code of
        Inl err \<Rightarrow> Inl err
      | Inr None \<Rightarrow> Inr (st, [(w, SessionError session_not_found)])
      | Inr (Some sessionCode) \<Rightarrow>
          (case map_of (sessions st) sessionCode of
             None \<Rightarrow> Inr (st, [(w, SessionError session_not_found)])
           | Some session0 \<Rightarrow>
               let session = session0\<lparr>devices := AList.update deviceId
                                 (new_device w deviceId deviceName deviceType (now e))
                                 (devices session0)\<rparr>;
                   st' = (set_session st sessionCode session)
                           \<lparr>deviceToSession :=
                              AList.update deviceId sessionCode (deviceToSession st),
                            totalUsers := totalUsers st + 1\<rparr>;
                   existingFiles = map (\<lambda>(k, f). info_of f) (files session)
               in Inr (st',
                    [(w, SessionJoined sessionCode deviceId (length (devices session)))]
                    @ broadcastToSession st' sessionCode
                        (DeviceJoined deviceId deviceName deviceType (length (devices session)))
                        (Some deviceId)
                    @ (if existingFiles \<noteq> [] then [(w, ExistingFiles existingFiles)] else []))))"

definition handle_file_start ::
  "hub \<Rightarrow> ws \<Rightarrow> string \<Rightarrow> jsval \<Rightarrow> jsval \<Rightarrow> jsval \<Rightarrow> env \<Rightarrow> hub \<times> send list" where
  "handle_file_start st w deviceId fileName fileSize mimeType e =
     (case session_of st deviceId of
        None \<Rightarrow> (st, [])
      | Some (sessionCode, session) \<Rightarrow>
          let fileId = uuid e;
              f = \<lparr>id_file = fileId, originalName = fileName, size_file = fileSize,
                   mimetype = mimeType, uploadedAt = now e, chunks = [], receivedSize = 0,
                   uploaderId = deviceId, data = None\<rparr>
          in (set_file st sessionCode session fileId f, [(w, FileStartAck fileId fileName)]))"

definition handle_file_complete :: "hub \<Rightarrow> ws \<Rightarrow> string \<Rightarrow> jsval \<Rightarrow> hub \<times> send list" where
  "handle_file_complete st w deviceId fileId =
     (case session_of st deviceId of
        None \<Rightarrow> (st, [])
      | Some (sessionCode, session) \<Rightarrow>
          (case files_get (files session) fileId of
             None \<Rightarrow> (st, [])
           | Some (k, f) \<Rightarrow>
               let f' = f\<lparr>data := Some (concat (chunks f)), chunks := []\<rparr>;
                   st' = set_file st sessionCode session k f'
               in (st', broadcastToSession st' sessionCode (NewFile (info_of f')) (Some deviceId)
                        @ [(w, FileCompleteAck k)])))"

definition chunkSize :: nat where
  "chunkSize = 64 * 1024"

text \<open>\<open>Math.ceil(data.length / chunkSize)\<close>.\<close>

definition totalChunks :: "buffer \<Rightarrow> nat" where
  "totalChunks d = (length d + chunkSize - 1) div chunkSize"

text \<open>\<open>Buffer.alloc(36)\<close> is 36 zero bytes; \<open>header.write(id)\<close> overwrites its start.\<close>

definition header :: "string \<Rightarrow> buffer" where
  "header fileId = take 36 fileId @ replicate (36 - length fileId) (CHR 0x00)"

definition slice :: "buffer \<Rightarrow> nat \<Rightarrow> nat \<Rightarrow> buffer" where
  "slice d start stop = take (stop - start) (drop start d)"

definition packet :: "string \<Rightarrow> buffer \<Rightarrow> nat \<Rightarrow> buffer" where
  "packet fileId d i =
     (let start = i * chunkSize; stop = min (start + chunkSize) (length d)
      in header fileId @ slice d start stop)"

definition handle_request_file :: "hub \<Rightarrow> ws \<Rightarrow> string \<Rightarrow> jsval \<Rightarrow> hub \<times> send list" where
  "handle_request_file st w deviceId fileId =
     (case session_of st deviceId of
        None \<Rightarrow> (st, [])
      | Some (sessionCode, session) \<Rightarrow>
          (case files_get (files session) fileId of
             None \<Rightarrow> (st, [])
           | Some (k, requestedFile) \<Rightarrow>
               (case data requestedFile of
                  None \<Rightarrow> (st, [])
                | Some d \<Rightarrow>
                    (st, [(w, FileDownloadStart (id_file requestedFile)
                               (originalName requestedFile) (size_file requestedFile)
                               (mimetype requestedFile))]
                         @ map (\<lambda>i. (w, Binary (packet (id_file requestedFile) d i)))
                             [0..<totalChunks d]
                         @ [(w, FileDownloadComplete (id_file requestedFile))]))))"

definition handle_delete_file :: "hub \<Rightarrow> ws \<Rightarrow> string \<Rightarrow> jsval \<Rightarrow> hub \<times> send list" where
  "handle_delete_file st w deviceId fileId =
     (case session_of st deviceId of
        None \<Rightarrow> (st, [])
      | Some (sessionCode, session) \<Rightarrow>
          (case files_get (files session) fileId of
             None \<Rightarrow> (st, [])
           | Some (k, f) \<Rightarrow>
               let st' = set_session st sessionCode
                           (session\<lparr>files := AList.delete k (files session)\<rparr>)
               in (st', broadcastToSession st' sessionCode (FileRemoved k) None)))"

text \<open>
  \<open>handleJsonMessage\<close>: \<open>None\<close> when the call does not return (the retry loop of
  \<open>create_session\<close>), \<open>Inl\<close> when it throws before any effect (\<open>toUpperCase\<close> in
  \<open>join_session\<close>). The \<open>console.log\<close> that ends a case can throw too, when it converts
  a name or a size; it comes after the last write and the last send of the case and the
  listener catches it, so nothing of what is recorded here depends on it.
\<close>

fun handleJsonMessage ::
  "hub \<Rightarrow> ws \<Rightarrow> string \<Rightarrow> message \<Rightarrow> env \<Rightarrow> (error + hub \<times> send list) option" where
  "handleJsonMessage st w deviceId (create_session deviceName deviceType) e =
     map_option Inr (handle_create_session st w deviceId deviceName deviceType e)"
| "handleJsonMessage st w deviceId (join_session code deviceName deviceType) e =
     Some (handle_join_session st w deviceId code deviceName deviceType e)"
| "handleJsonMessage st w deviceId (file_start fileName fileSize mimeType) e =
     Some (Inr (handle_file_start st w deviceId fileName fileSize mimeType e))"
| "handleJsonMessage st w deviceId (file_complete fileId) e =
     Some (Inr (handle_file_complete st w deviceId fileId))"
| "handleJsonMessage st w deviceId (request_file fileId) e =
     Some (Inr (handle_request_file st w deviceId fileId))"
| "handleJsonMessage st w deviceId (delete_file fileId) e =
     Some (Inr (handle_delete_file st w deviceId fileId))"
| "handleJsonMessage st w deviceId ping e = Some (Inr (st, [(w, Pong)]))"
| "handleJsonMessage st w deviceId unrecognised e = Some (Inr (st, []))"

section \<open>The handler of data frames\<close>

text \<open>
  \<open>handleBinaryMessage\<close> is called outside the \<open>try\<close> of the listener. The quotient
  \<open>file.receivedSize / file.size\<close> converts the declared size to a number, after the
  chunk is stored and before the progress frame is sent.
\<close>

definition handleBinaryMessage ::
  "hub \<Rightarrow> ws \<Rightarrow> string \<Rightarrow> buffer \<Rightarrow> (hub \<times> send list) outcome" where
  "handleBinaryMessage st w deviceId d =
     (case session_of st deviceId of
        None \<Rightarrow> Returns (st, [])
      | Some (sessionCode, session) \<Rightarrow>
          let fileId = take 36 d; chunk = drop 36 d
          in (case map_of (files session) fileId of
                None \<Rightarrow> Returns (st, [])
              | Some f \<Rightarrow>
                  let f' = f\<lparr>chunks := chunks f @ [chunk],
                             receivedSize := receivedSize f + length chunk\<rparr>;
                      st' = set_file st sessionCode session fileId f'
                  in if toPrimitive_throws (size_file f') then Throws TypeError (st', [])
                     else Returns
                       (st', [(w, UploadProgress fileId (receivedSize f') (size_file f'))])))"

section \<open>Closing a connection\<close>

text \<open>
  The \<open>close\<close> handler of a connection. The timer it sets for a session left empty is
  recorded in \<open>timers\<close>; \<open>empty_session_timeout\<close> is the callback of that timer.
\<close>

definition handle_close :: "hub \<Rightarrow> ws \<Rightarrow> string \<Rightarrow> hub \<times> send list" where
  "handle_close st w deviceId =
     (let (st1, out) =
        (case session_of st deviceId of
           None \<Rightarrow> (st, [])
         | Some (sessionCode, session0) \<Rightarrow>
             let session = session0\<lparr>devices := AList.delete deviceId (devices session0)\<rparr>;
                 st' = set_session st sessionCode session;
                 out = broadcastToSession st' sessionCode
                         (DeviceLeft deviceId (length (devices session))) None
             in (if devices session = [] then st'\<lparr>timers := timers st' @ [sessionCode]\<rparr>
                 else st', out))
      in (st1\<lparr>deviceToSession := AList.delete deviceId (deviceToSession st1)\<rparr>, out))"

definition empty_session_timeout :: "hub \<Rightarrow> string \<Rightarrow> hub" where
  "empty_session_timeout st sessionCode =
     (case map_of (sessions st) sessionCode of
        None \<Rightarrow> st
      | Some currentSession \<Rightarrow>
          if devices currentSession = []
          then st\<lparr>sessions := AList.delete sessionCode (sessions st)\<rparr>
          else st)"

section \<open>The janitor\<close>

text \<open>
  The two nested \<open>forEach\<close> loops of the periodic sweep, over the entries of the session
  being swept and over the entries of the registry. \<open>t\<close> is \<open>thirtyMinutesAgo\<close>; the
  time stamps are milliseconds, as \<open>new Date(s).getTime()\<close> reads them back. The
  session object a callback mutates is the one the registry holds under its code, and
  deleting the entry being visited does not disturb the iteration of a \<open>Map\<close>.

  For every file it removes, the callback logs \<open>file.originalName\<close> in a template
  literal, after the entry is deleted and the broadcast is sent. The conversion can
  throw, and nothing in the callback catches it: the sweep ends there.
\<close>

text \<open>The frames sent before a call, put in front of those of the call.\<close>

fun after_sending :: "send list \<Rightarrow> (hub \<times> send list) outcome \<Rightarrow> (hub \<times> send list) outcome" where
  "after_sending out (Returns (st, outs)) = Returns (st, out @ outs)"
| "after_sending out (Throws err (st, outs)) = Throws err (st, out @ outs)"

fun janitor_files ::
  "int \<Rightarrow> string \<Rightarrow> (string \<times> stored_file) list \<Rightarrow> hub \<Rightarrow> (hub \<times> send list) outcome" where
  "janitor_files t sessionCode [] st = Returns (st, [])"
| "janitor_files t sessionCode ((fileId, f) # rest) st =
     (if uploadedAt f < t then
        (let st1 = (case map_of (sessions st) sessionCode of
                      None \<Rightarrow> st
                    | Some session \<Rightarrow>
                        set_session st sessionCode
                          (session\<lparr>files := AList.delete fileId (files session)\<rparr>));
             out = broadcastToSession st1 sessionCode (FileRemoved fileId) None
         in if toPrimitive_throws (originalName f) then Throws TypeError (st1, out)
            else after_sending out (janitor_files t sessionCode rest st1))
      else janitor_files t sessionCode rest st)"

fun janitor_sessions ::
  "int \<Rightarrow> (string \<times> session) list \<Rightarrow> hub \<Rightarrow> (hub \<times> send list) outcome" where
  "janitor_sessions t [] st = Returns (st, [])"
| "janitor_sessions t ((sessionCode, session) # rest) st =
     (case janitor_files t sessionCode (files session) st of
        Throws err r \<Rightarrow> Throws err r
      | Returns (st1, out) \<Rightarrow>
          let st2 = (if devices session = [] \<and> createdAt session < t
                     then st1\<lparr>sessions := AList.delete sessionCode (sessions st1)\<rparr>
                     else st1)
          in after_sending out (janitor_sessions t rest st2))"

definition FILE_TTL :: int where
  "FILE_TTL = 30 * 60 * 1000"

definition janitor :: "hub \<Rightarrow> int \<Rightarrow> (hub \<times> send list) outcome" where
  "janitor st t_now = janitor_sessions (t_now - FILE_TTL) (sessions st) st"

section \<open>Events and runs\<close>

text \<open>
  What can happen to the process: a connection is accepted, a text or a binary frame
  arrives on the connection of a device, the library changes the \<open>readyState\<close> of a
  socket, a connection closes, the oldest pending timer fires, the janitor ticks. The
  listener of \<open>message\<close> catches what \<open>handleJsonMessage\<close> throws and logs it. What
  \<open>handleBinaryMessage\<close> or the janitor throws is caught by nothing, and an uncaught
  exception ends the process: \<open>step\<close> is \<open>None\<close> when the hub has no state after the
  event, because a call does not return or because the process has ended.
\<close>

datatype event =
    Connection ws string
  | JsonMessage ws string message env
  | BinaryMessage ws string buffer
  | SocketState ws ready_state
  | Close ws string
  | Timeout
  | Janitor int

fun step :: "hub \<Rightarrow> event \<Rightarrow> (hub \<times> send list) option" where
  "step st (Connection w deviceId) = Some (st, [])"
| "step st (JsonMessage w deviceId m e) =
     (case handleJsonMessage st w deviceId m e of
        None \<Rightarrow> None
      | Some (Inl err) \<Rightarrow> Some (st, [])
      | Some (Inr r) \<Rightarrow> Some r)"
| "step st (BinaryMessage w deviceId d) = returned (handleBinaryMessage st w deviceId d)"
| "step st (SocketState w r) = Some (st\<lparr>sockets := (sockets st)(w := r)\<rparr>, [])"
| "step st (Close w deviceId) = Some (handle_close st w deviceId)"
| "step st Timeout =
     (case timers st of
        [] \<Rightarrow> Some (st, [])
      | sessionCode # rest \<Rightarrow> Some (empty_session_timeout (st\<lparr>timers := rest\<rparr>) sessionCode, []))"
| "step st (Janitor t_now) = returned (janitor st t_now)"

fun run :: "hub \<Rightarrow> event list \<Rightarrow> (hub \<times> send list) option" where
  "run st [] = Some (st, [])"
| "run st (ev # evs) =
     (case step st ev of
        None \<Rightarrow> None
      | Some (st1, out) \<Rightarrow>
          (case run st1 evs of
             None \<Rightarrow> None
           | Some (st2, outs) \<Rightarrow> Some (st2, out @ outs)))"

section \<open>Vocabulary of the properties\<close>

text \<open>The file stored under an id in the session of a code, if there is one.\<close>

definition file_of :: "hub \<Rightarrow> string \<Rightarrow> string \<Rightarrow> stored_file option" where
  "file_of st sessionCode k =
     (case map_of (sessions st) sessionCode of None \<Rightarrow> None | Some s \<Rightarrow> map_of (files s) k)"

text \<open>What a run sent, and the file it left under an id.\<close>

definition sends_of :: "(hub \<times> send list) option \<Rightarrow> send list option" where
  "sends_of r = map_option snd r"

definition file_after ::
  "(hub \<times> send list) option \<Rightarrow> string \<Rightarrow> string \<Rightarrow> stored_file option" where
  "file_after r sessionCode k =
     (case r of None \<Rightarrow> None | Some (st, out) \<Rightarrow> file_of st sessionCode k)"

text \<open>One send of a frame to each device of a list whose socket is open, in order.\<close>

definition open_sends :: "(ws \<Rightarrow> ready_state) \<Rightarrow> (string \<times> device) list \<Rightarrow> frame \<Rightarrow> send list" where
  "open_sends socks ds msg =
     map (\<lambda>(i, device). (ws_dev device, msg))
       (filter (\<lambda>(i, device). socks (ws_dev device) = OPEN) ds)"

text \<open>An event mints the id \<open>k\<close> when it is a \<open>file_start\<close> whose \<open>uuidv4()\<close> is \<open>k\<close>.\<close>

fun mints :: "string \<Rightarrow> event \<Rightarrow> bool" where
  "mints k (JsonMessage w deviceId (file_start fileName fileSize mimeType) e) = (uuid e = k)"
| "mints k ev = False"

text \<open>
  An event completes the id \<open>k\<close> when it is a \<open>file_complete\<close> for \<open>k\<close>, and feeds it
  when it is a data frame whose first 36 bytes are \<open>k\<close>.
\<close>

fun completes :: "string \<Rightarrow> event \<Rightarrow> bool" where
  "completes k (JsonMessage w deviceId (file_complete fileId) e) = (fileId = JStr k)"
| "completes k ev = False"

fun feeds :: "string \<Rightarrow> event \<Rightarrow> bool" where
  "feeds k (BinaryMessage w deviceId d) = (take 36 d = k)"
| "feeds k ev = False"









text \<open>
  The shape of what \<open>uuidv4()\<close> returns: 36 characters, each a lower-case hexadecimal
  digit or a hyphen. An event mints such an id when it is no \<open>file_start\<close>, or one
  whose \<open>uuidv4()\<close> has this shape.
\<close>

definition uuid_shaped :: "string \<Rightarrow> bool" where
  "uuid_shaped k = (length k = 36 \<and> list_all (\<lambda>c. c \<in> set ''0123456789abcdef-'') k)"

fun mints_uuid :: "event \<Rightarrow> bool" where
  "mints_uuid (JsonMessage w deviceId (file_start fileName fileSize mimeType) e) =
     uuid_shaped (uuid e)"
| "mints_uuid ev = True"

text \<open>
  The handler of data frames in the words of the specification: the receiver strips the
  trailing spaces of the first 36 bytes and matches the result against the file ids of
  the session. Everything else is as in \<open>handleBinaryMessage\<close>.
\<close>

definition strip_trailing_spaces :: "string \<Rightarrow> string" where
  "strip_trailing_spaces s = rev (dropWhile (\<lambda>c. c = CHR '' '') (rev s))"

definition handleBinaryMessage_stripping ::
  "hub \<Rightarrow> ws \<Rightarrow> string \<Rightarrow> buffer \<Rightarrow> (hub \<times> send list) outcome" where
  "handleBinaryMessage_stripping st w deviceId d =
     (case session_of st deviceId of
        None \<Rightarrow> Returns (st, [])
      | Some (sessionCode, session) \<Rightarrow>
          let fileId = strip_trailing_spaces (take 36 d); chunk = drop 36 d
          in (case map_of (files session) fileId of
                None \<Rightarrow> Returns (st, [])
              | Some f \<Rightarrow>
                  let f' = f\<lparr>chunks := chunks f @ [chunk],
                             receivedSize := receivedSize f + length chunk\<rparr>;
                      st' = set_file st sessionCode session fileId f'
                  in if toPrimitive_throws (size_file f') then Throws TypeError (st', [])
                     else Returns
                       (st', [(w, UploadProgress fileId (receivedSize f') (size_file f'))])))"

text \<open>A session code: six characters of \<open>chars\<close>.\<close>

definition valid_code :: "string \<Rightarrow> bool" where
  "valid_code c = (length c = 6 \<and> set c \<subseteq> set chars)"

text \<open>
  Every value \<open>Math.floor(Math.random() * chars.length)\<close> an event draws is an index
  of \<open>chars\<close>, since \<open>Math.random()\<close> lies in \<open>[0, 1)\<close>.
\<close>

fun draws_in_range :: "event \<Rightarrow> bool" where
  "draws_in_range (JsonMessage w deviceId (create_session deviceName deviceType) e) =
     (\<forall>i. rnd e i < length chars)"
| "draws_in_range ev = True"

text \<open>The \<open>j\<close>-th code a call of \<open>create_session\<close> generates, counted from 0.\<close>

definition nth_code :: "(nat \<Rightarrow> nat) \<Rightarrow> nat \<Rightarrow> string" where
  "nth_code r j = fst (generateSessionCode r (6 * j))"

text \<open>The registry holds no code twice, and only codes of six characters of \<open>chars\<close>.\<close>

definition codes_ok :: "hub \<Rightarrow> bool" where
  "codes_ok st =
     (distinct (map fst (sessions st)) \<and> list_all valid_code (map fst (sessions st)))"

subsection \<open>Example devices, files and states\<close>

text \<open>Two device ids and a file id of the shape \<open>uuidv4()\<close> returns.\<close>

definition devA :: string where
  "devA = ''aaaaaaaa-aaaa-4aaa-8aaa-aaaaaaaaaaaa''"

definition devB :: string where
  "devB = ''bbbbbbbb-bbbb-4bbb-8bbb-bbbbbbbbbbbb''"

definition devC :: string where
  "devC = ''cccccccc-cccc-4ccc-8ccc-cccccccccccc''"

definition fileG :: string where
  "fileG = ''99999999-9999-4999-8999-999999999999''"

definition fileF :: string where
  "fileF = ''ffffffff-ffff-4fff-8fff-ffffffffffff''"

text \<open>
  A session of two devices holding one Open file, declared with 5 bytes, of which the
  2 bytes \<open>hi\<close> have arrived.
\<close>

definition open_file :: stored_file where
  "open_file = \<lparr>id_file = fileF, originalName = JStr ''hi.txt'', size_file = JNum 5,
     mimetype = JStr ''text/plain'', uploadedAt = 1000, chunks = [''hi''], receivedSize = 2,
     uploaderId = devA, data = None\<rparr>"

definition two_devices :: "(string \<times> device) list" where
  "two_devices =
     [(devA, \<lparr>id_dev = devA, ws_dev = 1, name_dev = JStr ''Mac'', type_dev = JStr ''mac'',
              connectedAt = 1000\<rparr>),
      (devB, \<lparr>id_dev = devB, ws_dev = 2, name_dev = JStr ''iPhone'',
              type_dev = JStr ''iphone'', connectedAt = 1000\<rparr>)]"

definition open_session :: session where
  "open_session = \<lparr>devices = two_devices, files = [(fileF, open_file)], createdAt = 1000\<rparr>"

definition open_hub :: hub where
  "open_hub = \<lparr>sessions = [(''AAAAAA'', open_session)],
     deviceToSession = [(devA, ''AAAAAA''), (devB, ''AAAAAA'')],
     totalUsers = 2, totalSessions = 1, sockets = (\<lambda>_. OPEN), timers = []\<rparr>"

text \<open>
  The frames of the scenario: device \<open>A\<close> creates a session (every random draw is 0, so
  its code is \<open>AAAAAA\<close>), device \<open>B\<close> joins it with the lower-cased code, \<open>A\<close> starts a
  file of 5 declared bytes, completes it and asks for it.
\<close>

definition env0 :: env where
  "env0 = \<lparr>now = 1000, uuid = fileF, rnd = (\<lambda>_. 0), unicodeUpper = (\<lambda>s. s)\<rparr>"

definition ev_create :: event where
  "ev_create = JsonMessage 1 devA (create_session (JStr ''Mac'') (JStr ''mac'')) env0"

definition ev_join :: event where
  "ev_join = JsonMessage 2 devB
     (join_session (JStr ''aaaaaa'') (JStr ''iPhone'') (JStr ''iphone'')) env0"

definition ev_start :: event where
  "ev_start = JsonMessage 1 devA
     (file_start (JStr ''hi.txt'') (JNum 5) (JStr ''text/plain'')) env0"

definition ev_complete :: event where
  "ev_complete = JsonMessage 1 devA (file_complete (JStr fileF)) env0"


text \<open>The codes of the registry after a run.\<close>

definition codes_after :: "(hub \<times> send list) option \<Rightarrow> string list option" where
  "codes_after r = (case r of None \<Rightarrow> None | Some (st, out) \<Rightarrow> Some (map fst (sessions st)))"

text \<open>The session a device is indexed under after a run.\<close>

definition session_after ::
  "(hub \<times> send list) option \<Rightarrow> string \<Rightarrow> (string \<times> session) option" where
  "session_after r deviceId =
     (case r of None \<Rightarrow> None | Some (st, out) \<Rightarrow> session_of st deviceId)"

text \<open>The device ids of the session of a code after a run.\<close>

definition members_after :: "(hub \<times> send list) option \<Rightarrow> string \<Rightarrow> string list option" where
  "members_after r sessionCode =
     (case r of
        None \<Rightarrow> None
      | Some (st, out) \<Rightarrow> map_option (\<lambda>s. map fst (devices s)) (map_of (sessions st) sessionCode))"

text \<open>
  Two characters are the same letter when they are equal or one is the lower-case form
  of the other; a case variant of a code differs from it in the case of letters only.
\<close>

definition same_letter :: "char \<Rightarrow> char \<Rightarrow> bool" where
  "same_letter a b =
     (a = b
      \<or> (a, b) \<in> set (zip ''abcdefghijklmnopqrstuvwxyz'' ''ABCDEFGHIJKLMNOPQRSTUVWXYZ'')
      \<or> (b, a) \<in> set (zip ''abcdefghijklmnopqrstuvwxyz'' ''ABCDEFGHIJKLMNOPQRSTUVWXYZ''))"

definition case_variant :: "string \<Rightarrow> string \<Rightarrow> bool" where
  "case_variant v c = list_all2 same_letter v c"

text \<open>The same session after the file was completed with the 5 bytes \<open>hello\<close>.\<close>

definition complete_file :: stored_file where
  "complete_file = \<lparr>id_file = fileF, originalName = JStr ''hi.txt'', size_file = JNum 5,
     mimetype = JStr ''text/plain'', uploadedAt = 1000, chunks = [], receivedSize = 5,
     uploaderId = devA, data = Some ''hello''\<rparr>"

definition complete_session :: session where
  "complete_session =
     \<lparr>devices = two_devices, files = [(fileF, complete_file)], createdAt = 1000\<rparr>"

definition complete_hub :: hub where
  "complete_hub = \<lparr>sessions = [(''AAAAAA'', complete_session)],
     deviceToSession = [(devA, ''AAAAAA''), (devB, ''AAAAAA'')],
     totalUsers = 2, totalSessions = 1, sockets = (\<lambda>_. OPEN), timers = []\<rparr>"

text \<open>
  The session of two devices holding two expired files, the first of which was started
  with the name \<open>{"toString": 0}\<close>, an object that cannot be converted to a string.
\<close>

definition unnamed_hub :: hub where
  "unnamed_hub = \<lparr>sessions =
       [(''AAAAAA'', \<lparr>devices = two_devices,
           files = [(fileF, open_file\<lparr>originalName := JObject True\<rparr>),
                    (fileG, open_file\<lparr>id_file := fileG\<rparr>)],
           createdAt = 1000\<rparr>)],
     deviceToSession = [(devA, ''AAAAAA''), (devB, ''AAAAAA'')],
     totalUsers = 2, totalSessions = 1, sockets = (\<lambda>_. OPEN), timers = []\<rparr>"

text \<open>
  The draws of a \<open>create_session\<close> whose first code is \<open>AAAAAA\<close> and whose second
  code is \<open>BBBBBB\<close>.
\<close>

definition env_retry :: env where
  "env_retry = \<lparr>now = 2000, uuid = fileG, rnd = (\<lambda>i. if i < 6 then 0 else 1),
     unicodeUpper = (\<lambda>s. s)\<rparr>"

section \<open>Reading and writing a session\<close>

lemma session_of_SomeD:
  "session_of st d = Some (c, s) \<Longrightarrow>
     map_of (deviceToSession st) d = Some c \<and> c \<noteq> [] \<and> map_of (sessions st) c = Some s"
  by (auto simp: session_of_def split: option.splits if_splits)

lemma file_of_set_session [simp]:
  "file_of (set_session st c s) c' k = (if c' = c then map_of (files s) k else file_of st c' k)"
  by (simp add: file_of_def set_session_def update_conv')

lemma sessions_set_session [simp]:
  "map_of (sessions (set_session st c s)) c' =
     (if c' = c then Some s else map_of (sessions st) c')"
  by (simp add: set_session_def update_conv')

lemma set_session_other [simp]:
  "deviceToSession (set_session st c s) = deviceToSession st"
  "sockets (set_session st c s) = sockets st"
  "timers (set_session st c s) = timers st"
  "totalUsers (set_session st c s) = totalUsers st"
  "totalSessions (set_session st c s) = totalSessions st"
  by (simp_all add: set_session_def)

lemma broadcast_set_session [simp]:
  "broadcastToSession (set_session st c s) c msg ex =
     map (\<lambda>(i, device). (ws_dev device, msg))
       (filter (\<lambda>(i, device). Some i \<noteq> ex \<and> sockets st (ws_dev device) = OPEN) (devices s))"
  by (simp add: broadcastToSession_def)

lemma info_of_data [simp]: "info_of (f\<lparr>data := d, chunks := cs\<rparr>) = info_of f"
  by (simp add: info_of_def)

lemma open_hub_devA: "session_of open_hub devA = Some (''AAAAAA'', open_session)"
  by code_simp

lemma open_session_fileF: "map_of (files open_session) fileF = Some open_file"
  by code_simp

lemma complete_hub_devA: "session_of complete_hub devA = Some (''AAAAAA'', complete_session)"
  by code_simp

lemma complete_hub_devB: "session_of complete_hub devB = Some (''AAAAAA'', complete_session)"
  by code_simp

lemma complete_session_fileF: "map_of (files complete_session) fileF = Some complete_file"
  by code_simp

section \<open>Completing an upload\<close>

lemma handle_file_complete_found:
  assumes "session_of st deviceId = Some (sessionCode, session)"
    and "map_of (files session) k = Some f"
  shows "handle_file_complete st w deviceId (JStr k) =
           (set_file st sessionCode session k
              (f\<lparr>data := Some (concat (chunks f)), chunks := []\<rparr>),
            map (\<lambda>(i, device). (ws_dev device, NewFile (info_of f)))
              (filter (\<lambda>(i, device). i \<noteq> deviceId \<and> sockets st (ws_dev device) = OPEN)
                 (devices session))
            @ [(w, FileCompleteAck k)])"
  using assms by (simp add: handle_file_complete_def Let_def set_file_def)

text \<open>
  C1, as the code has it. A \<open>file_complete\<close> for a file of the sender's session always
  completes it: the stored buffer becomes the concatenation of the chunks received so
  far, the chunk list is emptied and the sender is sent exactly one
  \<open>file_complete_ack\<close>. Nothing is compared with the declared size, so the file never
  stays Open and the length of the buffer need not be the declared size.
\<close>

theorem file_complete_without_size_check:
  assumes "session_of st deviceId = Some (sessionCode, session)"
    and "map_of (files session) k = Some f"
  shows "file_of (fst (handle_file_complete st w deviceId (JStr k))) sessionCode k
           = Some (f\<lparr>data := Some (concat (chunks f)), chunks := []\<rparr>)
         \<and> filter (\<lambda>x. snd x = FileCompleteAck k)
             (snd (handle_file_complete st w deviceId (JStr k)))
           = [(w, FileCompleteAck k)]"
proof -
  have "filter (\<lambda>x. snd x = FileCompleteAck k)
          (map (\<lambda>(i, device). (ws_dev device, NewFile (info_of f))) ds) = []" for ds
    by (induction ds) auto
  then show ?thesis
    by (simp add: handle_file_complete_found [OF assms] set_file_def update_conv')
qed

theorem file_complete_without_size_check_witness:
  "session_of open_hub devA = Some (''AAAAAA'', open_session)
   \<and> map_of (files open_session) fileF = Some open_file
   \<and> size_file open_file = JNum 5
   \<and> file_of (fst (handle_file_complete open_hub 1 devA (JStr fileF))) ''AAAAAA'' fileF
       = Some (open_file\<lparr>data := Some ''hi'', chunks := []\<rparr>)
   \<and> filter (\<lambda>x. snd x = FileCompleteAck fileF)
       (snd (handle_file_complete open_hub 1 devA (JStr fileF)))
       = [(1, FileCompleteAck fileF)]"
proof -
  have h: "size_file open_file = JNum 5" "concat (chunks open_file) = ''hi''"
    by (simp_all add: open_file_def)
  from file_complete_without_size_check [OF open_hub_devA open_session_fileF, of 1]
    open_hub_devA open_session_fileF h
  show ?thesis by simp
qed

text \<open>
  C1, as stated, fails: a file declared with 5 bytes is completed after the 2 bytes
  \<open>hi\<close>, its buffer has length 2 and the uploader is sent \<open>file_complete_ack\<close>.
\<close>

theorem complete_length_counterexample:
  "file_after (run initial
       [ev_create, ev_start, BinaryMessage 1 devA (fileF @ ''hi''), ev_complete])
     ''AAAAAA'' fileF
     = Some \<lparr>id_file = fileF, originalName = JStr ''hi.txt'', size_file = JNum 5,
         mimetype = JStr ''text/plain'', uploadedAt = 1000, chunks = [], receivedSize = 2,
         uploaderId = devA, data = Some ''hi''\<rparr>
   \<and> sends_of (run initial
       [ev_create, ev_start, BinaryMessage 1 devA (fileF @ ''hi''), ev_complete])
     = Some [(1, SessionCreated ''AAAAAA'' devA 1),
         (1, FileStartAck fileF (JStr ''hi.txt'')),
         (1, UploadProgress fileF 2 (JNum 5)),
         (1, FileCompleteAck fileF)]"
  by code_simp

text \<open>
  C4, as the code has it. A \<open>file_complete\<close> for a file that is already Complete
  replaces its buffer by the concatenation of the chunk list, which holds the data
  frames that arrived for the file since it was completed: the new buffer is empty when
  there were none. A \<open>new_file\<close> is sent again to every other member of the session whose
  socket is open, and a \<open>file_complete_ack\<close> to the sender.
\<close>

theorem second_file_complete:
  assumes "session_of st deviceId = Some (sessionCode, session)"
    and "map_of (files session) k = Some f"
    and "data f = Some old"
  shows "map_option data (file_of (fst (handle_file_complete st w deviceId (JStr k))) sessionCode k)
           = Some (Some (concat (chunks f)))
         \<and> (chunks f = [] \<longrightarrow>
             map_option data
               (file_of (fst (handle_file_complete st w deviceId (JStr k))) sessionCode k)
             = Some (Some []))
         \<and> snd (handle_file_complete st w deviceId (JStr k))
           = map (\<lambda>(i, device). (ws_dev device, NewFile (info_of f)))
               (filter (\<lambda>(i, device). i \<noteq> deviceId \<and> sockets st (ws_dev device) = OPEN)
                  (devices session))
             @ [(w, FileCompleteAck k)]"
  by (simp add: handle_file_complete_found [OF assms(1,2)] set_file_def update_conv')


theorem second_file_complete_witness:
  "session_of complete_hub devA = Some (''AAAAAA'', complete_session)
   \<and> map_of (files complete_session) fileF = Some complete_file
   \<and> data complete_file = Some ''hello''
   \<and> chunks complete_file = []
   \<and> map_option data
       (file_of (fst (handle_file_complete complete_hub 1 devA (JStr fileF))) ''AAAAAA'' fileF)
     = Some (Some [])
   \<and> snd (handle_file_complete complete_hub 1 devA (JStr fileF))
     = [(2, NewFile (info_of complete_file)), (1, FileCompleteAck fileF)]"
proof -
  have h: "data complete_file = Some ''hello''" "chunks complete_file = []"
    by (simp_all add: complete_file_def)
  have d: "filter (\<lambda>(i, device). i \<noteq> devA \<and> sockets complete_hub (ws_dev device) = OPEN)
             (devices complete_session)
           = [(devB, \<lparr>id_dev = devB, ws_dev = 2, name_dev = JStr ''iPhone'',
                type_dev = JStr ''iphone'', connectedAt = 1000\<rparr>)]"
    by (simp add: complete_session_def two_devices_def complete_hub_def devA_def devB_def)
  from second_file_complete [OF complete_hub_devA complete_session_fileF h(1), of 1]
    complete_hub_devA complete_session_fileF h d
  show ?thesis by simp
qed

text \<open>
  C4, as stated, fails. After the first \<open>file_complete\<close> a data frame \<open>x\<close> arrives for
  the file and the socket of \<open>B\<close> starts closing: the second \<open>file_complete\<close> replaces
  the buffer \<open>hello\<close> by \<open>x\<close>, not by an empty buffer, and \<open>B\<close>, still a member, is sent
  no second \<open>new_file\<close>.
\<close>

theorem second_complete_counterexample:
  "file_after (run initial
       [ev_create, ev_join, ev_start, BinaryMessage 1 devA (fileF @ ''hello''), ev_complete,
        BinaryMessage 1 devA (fileF @ ''x''), SocketState 2 CLOSING, ev_complete])
     ''AAAAAA'' fileF
     = Some \<lparr>id_file = fileF, originalName = JStr ''hi.txt'', size_file = JNum 5,
         mimetype = JStr ''text/plain'', uploadedAt = 1000, chunks = [], receivedSize = 6,
         uploaderId = devA, data = Some ''x''\<rparr>
   \<and> members_after (run initial
       [ev_create, ev_join, ev_start, BinaryMessage 1 devA (fileF @ ''hello''), ev_complete,
        BinaryMessage 1 devA (fileF @ ''x''), SocketState 2 CLOSING, ev_complete])
     ''AAAAAA'' = Some [devA, devB]
   \<and> sends_of (run initial
       [ev_create, ev_join, ev_start, BinaryMessage 1 devA (fileF @ ''hello''), ev_complete,
        BinaryMessage 1 devA (fileF @ ''x''), SocketState 2 CLOSING, ev_complete])
     = Some [(1, SessionCreated ''AAAAAA'' devA 1),
         (2, SessionJoined ''AAAAAA'' devB 2),
         (1, DeviceJoined devB (JStr ''iPhone'') (JStr ''iphone'') 2),
         (1, FileStartAck fileF (JStr ''hi.txt'')),
         (1, UploadProgress fileF 5 (JNum 5)),
         (2, NewFile \<lparr>id_info = fileF, originalName_info = JStr ''hi.txt'',
                size_info = JNum 5, mimetype_info = JStr ''text/plain'',
                uploadedAt_info = 1000\<rparr>),
         (1, FileCompleteAck fileF),
         (1, UploadProgress fileF 6 (JNum 5)),
         (1, FileCompleteAck fileF)]"
  by code_simp

section \<open>Data frames\<close>




section \<open>Joining a session\<close>

text \<open>
  C6, as the code has it. A \<open>join_session\<close> whose upper-cased code is the code of no
  live session leaves the whole state as it was: no session, file, index entry or
  socket changes, so a device that was in no session is in none afterwards. When the
  \<open>sessionCode\<close> is a string, or is absent or null, the sender is sent exactly one
  \<open>session_error\<close>. When it is any other value (a number, a boolean, an array, an
  object), \<open>toUpperCase\<close> throws, the listener logs the error and no frame is sent.
\<close>

theorem join_unknown_session:
  assumes "\<forall>k. sessionCode_toUpperCase (unicodeUpper e) code = Inr (Some k)
             \<longrightarrow> map_of (sessions st) k = None"
  shows "step st (JsonMessage w deviceId (join_session code deviceName deviceType) e)
           = Some (st, case sessionCode_toUpperCase (unicodeUpper e) code of
                         Inl err \<Rightarrow> []
                       | Inr c \<Rightarrow> [(w, SessionError session_not_found)])"
proof (cases "sessionCode_toUpperCase (unicodeUpper e) code")
  case (Inl err)
  then show ?thesis by (simp add: handle_join_session_def)
next
  case (Inr c)
  with assms show ?thesis
    by (cases c) (simp_all add: handle_join_session_def)
qed

theorem join_unknown_session_witness:
  "map_of (sessions open_hub) ''ZZZZZZ'' = None
   \<and> sessionCode_toUpperCase (unicodeUpper env0) (JStr ''zzzzzz'') = Inr (Some ''ZZZZZZ'')
   \<and> step open_hub (JsonMessage 3 devC
         (join_session (JStr ''zzzzzz'') (JStr ''PC'') (JStr ''windows'')) env0)
       = Some (open_hub, [(3, SessionError session_not_found)])
   \<and> sessionCode_toUpperCase (unicodeUpper env0) (JNum 234567) = Inl TypeError
   \<and> step open_hub (JsonMessage 3 devC
         (join_session (JNum 234567) (JStr ''PC'') (JStr ''windows'')) env0)
       = Some (open_hub, [])"
proof -
  have h1: "sessionCode_toUpperCase (unicodeUpper env0) (JStr ''zzzzzz'') = Inr (Some ''ZZZZZZ'')"
    by code_simp
  have h2: "map_of (sessions open_hub) ''ZZZZZZ'' = None" by code_simp
  have h3: "\<forall>k. sessionCode_toUpperCase (unicodeUpper env0) (JStr ''zzzzzz'') = Inr (Some k)
              \<longrightarrow> map_of (sessions open_hub) k = None"
    using h1 h2 by simp
  have n1: "sessionCode_toUpperCase (unicodeUpper env0) (JNum 234567) = Inl TypeError"
    by simp
  have n3: "\<forall>k. sessionCode_toUpperCase (unicodeUpper env0) (JNum 234567) = Inr (Some k)
              \<longrightarrow> map_of (sessions open_hub) k = None"
    by simp
  from join_unknown_session [where st = open_hub and e = env0 and code = "JStr ''zzzzzz''"
      and w = 3 and deviceId = devC and deviceName = "JStr ''PC''"
      and deviceType = "JStr ''windows''", OF h3]
    join_unknown_session [where st = open_hub and e = env0 and code = "JNum 234567"
      and w = 3 and deviceId = devC and deviceName = "JStr ''PC''"
      and deviceType = "JStr ''windows''", OF n3]
    h1 h2 n1
  show ?thesis by simp
qed

text \<open>
  C6, as stated, fails. The only live session has the code \<open>AAAAAA\<close>; a \<open>join_session\<close>
  whose \<open>sessionCode\<close> is the number 234567 matches no session and is answered by no
  frame at all: the device that created the session has received its
  \<open>session_created\<close>, and nothing else is sent.
\<close>

theorem join_numeric_code_counterexample:
  "codes_after (run initial
       [ev_create,
        JsonMessage 3 devC (join_session (JNum 234567) (JStr ''PC'') (JStr ''windows'')) env0])
     = Some [''AAAAAA'']
   \<and> sends_of (run initial
       [ev_create,
        JsonMessage 3 devC (join_session (JNum 234567) (JStr ''PC'') (JStr ''windows'')) env0])
     = Some [(1, SessionCreated ''AAAAAA'' devA 1)]"
  by code_simp

lemma upper_char_chars: "b \<in> set chars \<Longrightarrow> upper_char b = b"
proof -
  have "list_all (\<lambda>b. upper_char b = b) chars" by code_simp
  then show "b \<in> set chars \<Longrightarrow> upper_char b = b" by (simp add: list_all_iff)
qed

lemma upper_char_lower:
  assumes "(a, b) \<in> set (zip ''abcdefghijklmnopqrstuvwxyz'' ''ABCDEFGHIJKLMNOPQRSTUVWXYZ'')"
  shows "upper_char a = b"
proof -
  have "list_all (\<lambda>(a, b). upper_char a = b)
          (zip ''abcdefghijklmnopqrstuvwxyz'' ''ABCDEFGHIJKLMNOPQRSTUVWXYZ'')"
    by code_simp
  then have "\<forall>x\<in>set (zip ''abcdefghijklmnopqrstuvwxyz'' ''ABCDEFGHIJKLMNOPQRSTUVWXYZ'').
               case x of (a, b) \<Rightarrow> upper_char a = b"
    by (simp only: list_all_iff)
  from bspec [OF this assms] show ?thesis by (simp only: prod.case)
qed

lemma lower_not_chars:
  assumes "(b, a) \<in> set (zip ''abcdefghijklmnopqrstuvwxyz'' ''ABCDEFGHIJKLMNOPQRSTUVWXYZ'')"
  shows "b \<notin> set chars"
proof -
  have "list_all (\<lambda>(b, a). b \<notin> set chars)
          (zip ''abcdefghijklmnopqrstuvwxyz'' ''ABCDEFGHIJKLMNOPQRSTUVWXYZ'')"
    by code_simp
  then have "\<forall>x\<in>set (zip ''abcdefghijklmnopqrstuvwxyz'' ''ABCDEFGHIJKLMNOPQRSTUVWXYZ'').
               case x of (b, a) \<Rightarrow> b \<notin> set chars"
    by (simp only: list_all_iff)
  from bspec [OF this assms] show ?thesis by (simp only: prod.case simp_thms)
qed

lemma same_letter_upper:
  assumes "same_letter a b" and "b \<in> set chars"
  shows "upper_char a = b"
  using assms upper_char_chars upper_char_lower lower_not_chars
  unfolding same_letter_def by blast


lemma same_letter_ascii:
  assumes "same_letter a b" and "b \<in> set chars"
  shows "\<not> digit7 a"
proof -
  have "list_all (\<lambda>b. \<not> digit7 b) chars" by code_simp
  then have c: "\<And>x. x \<in> set chars \<Longrightarrow> \<not> digit7 x" by (simp add: list_all_iff)
  have "list_all (\<lambda>(a, b). \<not> digit7 a)
          (zip ''abcdefghijklmnopqrstuvwxyz'' ''ABCDEFGHIJKLMNOPQRSTUVWXYZ'')"
    by code_simp
  then have "\<forall>x\<in>set (zip ''abcdefghijklmnopqrstuvwxyz'' ''ABCDEFGHIJKLMNOPQRSTUVWXYZ'').
               case x of (a, b) \<Rightarrow> \<not> digit7 a"
    by (simp only: list_all_iff)
  then have l: "(a, b) \<in> set (zip ''abcdefghijklmnopqrstuvwxyz'' ''ABCDEFGHIJKLMNOPQRSTUVWXYZ'')
                 \<Longrightarrow> \<not> digit7 a"
    by (drule_tac x = "(a, b)" in bspec) (simp_all only: prod.case simp_thms)
  from assms c l lower_not_chars show ?thesis
    unfolding same_letter_def by blast
qed

lemma case_variant_toUpperCase:
  assumes "case_variant v c" and "set c \<subseteq> set chars"
  shows "toUpperCase u v = c"
proof -
  from assms have "ascii v \<and> map upper_char v = c"
    unfolding case_variant_def ascii_def
    by (induction v c rule: list_all2_induct)
      (auto simp: same_letter_upper same_letter_ascii)
  then show ?thesis by (simp add: toUpperCase_def)
qed

text \<open>
  C10. For a live session whose code is made of characters of the alphabet, a
  \<open>join_session\<close> carrying any case variant of the code finds it after upper-casing:
  the device is put into that session and into the index, and the first frame sent is
  \<open>session_joined\<close>, to the joining socket, with the new number of devices.
\<close>

theorem join_case_insensitive:
  fixes s0 :: session and d :: string and w :: ws and n t :: jsval and e :: env
  defines "s' \<equiv> s0\<lparr>devices := AList.update d (new_device w d n t (now e)) (devices s0)\<rparr>"
  assumes "map_of (sessions st) c = Some s0"
    and "set c \<subseteq> set chars"
    and "case_variant v c"
  shows "toUpperCase (unicodeUpper e) v = c
         \<and> (\<exists>st' rest.
              step st (JsonMessage w d (join_session (JStr v) n t) e)
                = Some (st', (w, SessionJoined c d (length (devices s'))) # rest)
              \<and> map_of (deviceToSession st') d = Some c
              \<and> map_of (sessions st') c = Some s'
              \<and> map_of (devices s') d = Some (new_device w d n t (now e)))"
proof -
  have u: "toUpperCase (unicodeUpper e) v = c"
    by (rule case_variant_toUpperCase [OF assms(4,3)])
  show ?thesis
    using assms(2) u
    by (simp add: handle_join_session_def Let_def s'_def update_conv')
qed

theorem join_case_insensitive_witness:
  "map_of (sessions open_hub) ''AAAAAA'' = Some open_session
   \<and> set ''AAAAAA'' \<subseteq> set chars
   \<and> case_variant ''aaaaaa'' ''AAAAAA''
   \<and> toUpperCase (unicodeUpper env0) ''aaaaaa'' = ''AAAAAA''
   \<and> (\<exists>st' rest.
        step open_hub (JsonMessage 3 devC
            (join_session (JStr ''aaaaaa'') (JStr ''PC'') (JStr ''windows'')) env0)
          = Some (st', (3, SessionJoined ''AAAAAA'' devC 3) # rest)
        \<and> map_of (deviceToSession st') devC = Some ''AAAAAA''
        \<and> map_of (sessions st') ''AAAAAA''
            = Some (open_session\<lparr>devices := two_devices
                 @ [(devC, new_device 3 devC (JStr ''PC'') (JStr ''windows'') 1000)]\<rparr>))"
proof -
  have h1: "map_of (sessions open_hub) ''AAAAAA'' = Some open_session" by code_simp
  have h2: "set ''AAAAAA'' \<subseteq> set chars" by code_simp
  have h3: "case_variant ''aaaaaa'' ''AAAAAA''" by code_simp
  have u: "AList.update devC (new_device 3 devC (JStr ''PC'') (JStr ''windows'') (now env0))
             (devices open_session)
           = two_devices @ [(devC, new_device 3 devC (JStr ''PC'') (JStr ''windows'') 1000)]"
    by (simp add: open_session_def two_devices_def devA_def devB_def devC_def env0_def)
  have l: "length two_devices = 2" by (simp add: two_devices_def)
  from join_case_insensitive [OF h1 h2 h3, where w = 3 and d = devC
      and n = "JStr ''PC''" and t = "JStr ''windows''" and e = env0]
    h1 h2 h3
  show ?thesis unfolding u by (simp add: l) blast
qed
section \<open>What one event does to a stored file\<close>

text \<open>
  A call that throws has still reached a state; a call that returns has returned the
  state it reached.
\<close>

lemma reached_after_sending [simp]:
  "fst (reached (after_sending out x)) = fst (reached x)"
  "snd (reached (after_sending out x)) = out @ snd (reached x)"
  by (cases x; cases "reached x"; simp)+

lemma returned_reached: "returned x = Some r \<Longrightarrow> reached x = r"
  by (cases x) simp_all

text \<open>
  Every handler leaves the file under an id as it was or removes it, apart from the
  \<open>file_start\<close> that mints the id, a \<open>file_complete\<close> for it and a data frame for it.
\<close>

lemma kept_create:
  "handle_create_session st w d n t e = Some (st', out)
     \<Longrightarrow> file_of st' c k = None \<or> file_of st' c k = file_of st c k"
  by (auto simp: handle_create_session_def Let_def file_of_def set_session_def update_conv'
      split: option.splits prod.splits if_splits)

lemma kept_join:
  "handle_join_session st w d code n t e = Inr (st', out)
     \<Longrightarrow> file_of st' c k = file_of st c k"
  by (auto simp: handle_join_session_def Let_def file_of_def set_session_def update_conv'
      split: option.splits sum.splits if_splits)

lemma kept_file_start:
  "uuid e \<noteq> k \<Longrightarrow> file_of (fst (handle_file_start st w d a b m e)) c k = file_of st c k"
  by (auto simp: handle_file_start_def Let_def file_of_def set_session_def set_file_def
        update_conv' session_of_def
      split: option.splits prod.splits if_splits)

lemma files_get_SomeD: "files_get fs v = Some (k, f) \<Longrightarrow> v = JStr k \<and> map_of fs k = Some f"
  by (cases v) auto

lemma kept_file_complete:
  "v \<noteq> JStr k \<Longrightarrow> file_of (fst (handle_file_complete st w d v)) c k = file_of st c k"
  by (auto simp: handle_file_complete_def Let_def file_of_def set_session_def set_file_def
        update_conv' session_of_def
      dest!: files_get_SomeD split: option.splits prod.splits if_splits)

lemma request_unchanged: "fst (handle_request_file st w d v) = st"
  by (auto simp: handle_request_file_def split: option.splits prod.splits)

lemma kept_delete_file:
  "file_of (fst (handle_delete_file st w d v)) c k = None
   \<or> file_of (fst (handle_delete_file st w d v)) c k = file_of st c k"
  by (auto simp: handle_delete_file_def Let_def file_of_def set_session_def
        update_conv' delete_conv' session_of_def
      dest!: files_get_SomeD split: option.splits prod.splits if_splits)

lemma kept_binary:
  "take 36 b \<noteq> k
     \<Longrightarrow> file_of (fst (reached (handleBinaryMessage st w d b))) c k = file_of st c k"
  by (auto simp: handleBinaryMessage_def Let_def file_of_def set_session_def set_file_def
        update_conv' session_of_def
      split: option.splits prod.splits if_splits)

lemma kept_close:
  "file_of (fst (handle_close st w d)) c k = file_of st c k"
  by (auto simp: handle_close_def Let_def file_of_def set_session_def
        update_conv' session_of_def
      split: option.splits prod.splits if_splits)

lemma kept_timeout:
  "file_of (empty_session_timeout (st\<lparr>timers := ts\<rparr>) c') c k = None
   \<or> file_of (empty_session_timeout (st\<lparr>timers := ts\<rparr>) c') c k = file_of st c k"
  by (auto simp: empty_session_timeout_def file_of_def delete_conv'
      split: option.splits if_splits)


lemma kept_janitor_files:
  "file_of (fst (reached (janitor_files t c' fs st))) c k = None
   \<or> file_of (fst (reached (janitor_files t c' fs st))) c k = file_of st c k"
proof (induction fs arbitrary: st)
  case Nil
  then show ?case by simp
next
  case (Cons a fs)
  obtain fileId f where a: "a = (fileId, f)" by (cases a)
  show ?case
  proof (cases "uploadedAt f < t")
    case False
    with Cons [of st] a show ?thesis by simp
  next
    case True
    let ?st1 = "case map_of (sessions st) c' of
                  None \<Rightarrow> st
                | Some session \<Rightarrow>
                    set_session st c' (session\<lparr>files := AList.delete fileId (files session)\<rparr>)"
    have s: "file_of ?st1 c k = None \<or> file_of ?st1 c k = file_of st c k"
      by (auto simp: file_of_def set_session_def update_conv' delete_conv' split: option.splits)
    from Cons [of ?st1] s True a show ?thesis
      by (auto simp: Let_def)
  qed
qed

lemma kept_janitor_sessions:
  "file_of (fst (reached (janitor_sessions t ss st))) c k = None
   \<or> file_of (fst (reached (janitor_sessions t ss st))) c k = file_of st c k"
proof (induction ss arbitrary: st)
  case Nil
  then show ?case by simp
next
  case (Cons a ss)
  obtain c' s where a: "a = (c', s)" by (cases a)
  show ?case
  proof (cases "janitor_files t c' (files s) st")
    case (Throws err r)
    with kept_janitor_files [of t c' "files s" st c k] a show ?thesis by simp
  next
    case (Returns r)
    obtain st1 out where r: "r = (st1, out)" by (cases r)
    let ?st2 = "if devices s = [] \<and> createdAt s < t
                then st1\<lparr>sessions := AList.delete c' (sessions st1)\<rparr> else st1"
    from kept_janitor_files [of t c' "files s" st c k] Returns r
    have 1: "file_of st1 c k = None \<or> file_of st1 c k = file_of st c k" by simp
    have 2: "file_of ?st2 c k = None \<or> file_of ?st2 c k = file_of st1 c k"
      by (auto simp: file_of_def delete_conv' split: option.splits)
    from Cons [of ?st2] 1 2 Returns r a show ?thesis
      by (auto simp: Let_def)
  qed
qed




text \<open>What a data frame and a \<open>file_complete\<close> do to the file of an id.\<close>

lemma fed_binary:
  "file_of (fst (reached (handleBinaryMessage st w d b))) c k = file_of st c k
   \<or> (map_of (deviceToSession st) d = Some c \<and> take 36 b = k
      \<and> (\<exists>f. file_of st c k = Some f
            \<and> file_of (fst (reached (handleBinaryMessage st w d b))) c k
                = Some (f\<lparr>chunks := chunks f @ [drop 36 b],
                          receivedSize := receivedSize f + length (drop 36 b)\<rparr>)))"
  by (auto simp: handleBinaryMessage_def Let_def file_of_def set_session_def set_file_def
        update_conv' session_of_def
      split: option.splits prod.splits if_splits)

lemma completed_file_complete:
  "file_of (fst (handle_file_complete st w d v)) c k = file_of st c k
   \<or> (map_of (deviceToSession st) d = Some c \<and> v = JStr k
      \<and> (\<exists>f. file_of st c k = Some f
            \<and> file_of (fst (handle_file_complete st w d v)) c k
                = Some (f\<lparr>data := Some (concat (chunks f)), chunks := []\<rparr>)))"
  by (auto simp: handle_file_complete_def Let_def file_of_def set_session_def set_file_def
        update_conv' session_of_def
      dest!: files_get_SomeD split: option.splits prod.splits if_splits)

lemma step_keeps_file:
  assumes "step st ev = Some (st', out)"
    and "\<not> mints k ev" and "\<not> completes k ev" and "\<not> feeds k ev"
  shows "file_of st' c k = None \<or> file_of st' c k = file_of st c k"
proof (cases ev)
  case (Connection w d)
  with assms show ?thesis by simp
next
  case (JsonMessage w d m e)
  show ?thesis
  proof (cases m)
    case (create_session n t)
    with assms JsonMessage show ?thesis
      by (auto dest: kept_create [where c = c and k = k] split: option.splits)
  next
    case (join_session code n t)
    with assms JsonMessage show ?thesis
      by (auto dest: kept_join [where c = c and k = k] split: sum.splits)
  next
    case (file_start a b m')
    with assms JsonMessage show ?thesis
      using kept_file_start [of e k st w d a b m' c] by auto
  next
    case (file_complete v)
    with assms JsonMessage show ?thesis
      using kept_file_complete [of v k st w d c] by auto
  next
    case (request_file v)
    with assms JsonMessage show ?thesis
      using request_unchanged [of st w d v] by auto
  next
    case (delete_file v)
    with assms JsonMessage show ?thesis
      using kept_delete_file [of st w d v c k] by auto
  next
    case ping
    with assms JsonMessage show ?thesis by auto
  next
    case unrecognised
    with assms JsonMessage show ?thesis by auto
  qed
next
  case (BinaryMessage w d b)
  with assms show ?thesis using kept_binary [of b k st w d c]
    by (auto dest!: returned_reached)
next
  case (SocketState w r)
  with assms show ?thesis by (auto simp: file_of_def)
next
  case (Close w d)
  with assms show ?thesis using kept_close [of st w d c k] by auto
next
  case Timeout
  with assms show ?thesis using kept_timeout [where st = st and c = c and k = k]
    by (auto split: list.splits)
next
  case (Janitor t)
  with assms show ?thesis
    using kept_janitor_sessions [of "t - FILE_TTL" "sessions st" st c k]
    by (auto simp: janitor_def dest!: returned_reached)
qed

lemma step_preserves_absent:
  assumes "step st ev = Some (st', out)" and "file_of st c k = None" and "\<not> mints k ev"
  shows "file_of st' c k = None"
proof (cases "completes k ev \<or> feeds k ev")
  case False
  with step_keeps_file [OF assms(1,3), of c] assms(2) show ?thesis by auto
next
  case True
  then show ?thesis
  proof
    assume "completes k ev"
    then obtain w d e where ev: "ev = JsonMessage w d (file_complete (JStr k)) e"
      by (cases "(k, ev)" rule: completes.cases) auto
    with assms completed_file_complete [of st w d "JStr k" c k] show ?thesis by auto
  next
    assume "feeds k ev"
    then obtain w d b where ev: "ev = BinaryMessage w d b"
      by (cases "(k, ev)" rule: feeds.cases) auto
    with assms fed_binary [of st w d b c k] show ?thesis
      by (auto dest!: returned_reached)
  qed
qed

lemma run_preserves_absent:
  assumes "run st evs = Some (st', out)" and "file_of st c k = None"
    and "list_all (\<lambda>ev. \<not> mints k ev) evs"
  shows "file_of st' c k = None"
  using assms
proof (induction evs arbitrary: st out)
  case Nil
  then show ?case by simp
next
  case (Cons ev evs)
  from Cons.prems(1) obtain st1 out1 out2 where
    s: "step st ev = Some (st1, out1)" and r: "run st1 evs = Some (st', out2)"
    by (auto split: option.splits)
  from Cons.prems have "file_of st1 c k = None"
    using step_preserves_absent [OF s] by simp
  from Cons.IH [OF r this] Cons.prems(3) show ?case by simp
qed

section \<open>Downloading a file\<close>

lemma length_header: "length (header k) = 36"
  by (simp add: header_def)























section \<open>Deleting a file\<close>

text \<open>
  C9. When \<open>delete_file\<close> finds the file in the sender's session, the file is gone from
  that session's store afterwards, and it stays gone through every later sequence of
  events in which no \<open>file_start\<close> is given the same id again (ids come from
  \<open>uuidv4()\<close>). A \<open>request_file\<close> for the id from any device indexed under that
  session then changes nothing and sends no frame at all.
\<close>

theorem deleted_file_stays_gone:
  assumes "session_of st d = Some (c, s)"
    and "map_of (files s) k = Some f"
    and "run (fst (handle_delete_file st w d (JStr k))) evs = Some (st2, out2)"
    and "list_all (\<lambda>ev. \<not> mints k ev) evs"
    and "map_of (deviceToSession st2) d' = Some c"
  shows "file_of (fst (handle_delete_file st w d (JStr k))) c k = None
         \<and> file_of st2 c k = None
         \<and> step st2 (JsonMessage w' d' (request_file (JStr k)) e') = Some (st2, [])"
proof -
  have a: "file_of (fst (handle_delete_file st w d (JStr k))) c k = None"
    using assms(1,2)
    by (simp add: handle_delete_file_def Let_def file_of_def set_session_def update_conv'
        delete_conv')
  have b: "file_of st2 c k = None"
    by (rule run_preserves_absent [OF assms(3) a assms(4)])
  have "c \<noteq> []" using session_of_SomeD [OF assms(1)] by simp
  with b assms(5) have "handle_request_file st2 w' d' (JStr k) = (st2, [])"
    by (auto simp: handle_request_file_def session_of_def file_of_def split: option.splits)
  with a b show ?thesis by simp
qed

theorem deleted_file_stays_gone_witness:
  "session_of complete_hub devA = Some (''AAAAAA'', complete_session)
   \<and> map_of (files complete_session) fileF = Some complete_file
   \<and> list_all (\<lambda>ev. \<not> mints fileF ev)
       [BinaryMessage 1 devA (fileF @ ''late''),
        JsonMessage 1 devA (file_start (JStr ''b.txt'') (JNum 1) (JStr ''text/plain''))
          (env0\<lparr>uuid := fileG\<rparr>),
        Janitor 5000]
   \<and> file_of (fst (handle_delete_file complete_hub 1 devA (JStr fileF))) ''AAAAAA'' fileF = None
   \<and> (\<exists>st2 out2.
        run (fst (handle_delete_file complete_hub 1 devA (JStr fileF)))
          [BinaryMessage 1 devA (fileF @ ''late''),
           JsonMessage 1 devA (file_start (JStr ''b.txt'') (JNum 1) (JStr ''text/plain''))
             (env0\<lparr>uuid := fileG\<rparr>),
           Janitor 5000] = Some (st2, out2)
        \<and> out2 = [(1, FileStartAck fileG (JStr ''b.txt''))]
        \<and> map_of (deviceToSession st2) devB = Some ''AAAAAA''
        \<and> file_of st2 ''AAAAAA'' fileF = None
        \<and> step st2 (JsonMessage 2 devB (request_file (JStr fileF)) env0) = Some (st2, []))"
proof -
  let ?evs = "[BinaryMessage 1 devA (fileF @ ''late''),
        JsonMessage 1 devA (file_start (JStr ''b.txt'') (JNum 1) (JStr ''text/plain''))
          (env0\<lparr>uuid := fileG\<rparr>),
        Janitor 5000]"
  let ?st1 = "fst (handle_delete_file complete_hub 1 devA (JStr fileF))"
  have m: "list_all (\<lambda>ev. \<not> mints fileF ev) ?evs"
    by (simp add: env0_def fileF_def fileG_def)
  have s: "sends_of (run ?st1 ?evs) = Some [(1, FileStartAck fileG (JStr ''b.txt''))]"
    by code_simp
  have q: "map_option fst (session_after (run ?st1 ?evs) devB) = Some ''AAAAAA''"
    by code_simp
  from s obtain st2 out2 where r: "run ?st1 ?evs = Some (st2, out2)"
    and o: "out2 = [(1, FileStartAck fileG (JStr ''b.txt''))]"
    by (cases "run ?st1 ?evs") (auto simp: sends_of_def)
  from q r obtain s2 where "session_of st2 devB = Some (''AAAAAA'', s2)"
    by (auto simp: session_after_def)
  then have i: "map_of (deviceToSession st2) devB = Some ''AAAAAA''"
    by (simp add: session_of_SomeD)
  from deleted_file_stays_gone [OF complete_hub_devA complete_session_fileF r m i, of 2 env0]
    complete_hub_devA complete_session_fileF m r o i
  show ?thesis by blast
qed
section \<open>The file id of a data frame\<close>

text \<open>
  Stripping the trailing spaces keeps a string that does not end with a space, shortens
  one that does, and gives back an id that was padded with spaces.
\<close>

lemma dropWhile_unchanged: "xs = [] \<or> \<not> P (hd xs) \<Longrightarrow> dropWhile P xs = xs"
  by (cases xs) auto

lemma strip_unchanged:
  assumes "s = [] \<or> last s \<noteq> CHR '' ''"
  shows "strip_trailing_spaces s = s"
proof -
  from assms have "rev s = [] \<or> \<not> (\<lambda>c. c = CHR '' '') (hd (rev s))"
    by (auto simp: hd_rev)
  then have "dropWhile (\<lambda>c. c = CHR '' '') (rev s) = rev s"
    by (rule dropWhile_unchanged)
  then show ?thesis by (simp add: strip_trailing_spaces_def)
qed

lemma strip_shorter:
  assumes "s \<noteq> []" and "last s = CHR '' ''"
  shows "length (strip_trailing_spaces s) < length s"
proof -
  from assms(1) obtain x xs where r: "rev s = x # xs" by (cases "rev s") auto
  with assms have "x = CHR '' ''" using hd_rev [of s] by simp
  with r have "length (dropWhile (\<lambda>c. c = CHR '' '') (rev s)) \<le> length xs"
    by (simp add: length_dropWhile_le)
  moreover have "length s = Suc (length xs)"
    using arg_cong [OF r, of length] by simp
  ultimately show ?thesis by (simp add: strip_trailing_spaces_def)
qed

lemma strip_padded:
  assumes "k = [] \<or> last k \<noteq> CHR '' ''"
  shows "strip_trailing_spaces (k @ replicate n (CHR '' '')) = k"
proof -
  from assms have "rev k = [] \<or> \<not> (\<lambda>c. c = CHR '' '') (hd (rev k))"
    by (auto simp: hd_rev)
  then have "dropWhile (\<lambda>c. c = CHR '' '') (rev k) = rev k"
    by (rule dropWhile_unchanged)
  then have "dropWhile (\<lambda>c. c = CHR '' '') (replicate n (CHR '' '') @ rev k) = rev k"
    by (induction n) simp_all
  then show ?thesis by (simp add: strip_trailing_spaces_def)
qed

text \<open>
  No id of the shape of \<open>uuidv4()\<close> holds a space, and after any run of the hub from its
  initial state every stored id is one a \<open>file_start\<close> of the run minted.
\<close>

lemma uuid_shaped_no_space: "uuid_shaped k \<Longrightarrow> CHR '' '' \<notin> set k"
proof -
  assume "uuid_shaped k"
  then have a: "\<forall>c\<in>set k. c \<in> set ''0123456789abcdef-''"
    by (simp add: uuid_shaped_def list_all_iff)
  have "CHR '' '' \<notin> set ''0123456789abcdef-''" by simp
  with a show ?thesis by blast
qed

lemma initial_no_file: "file_of initial c k = None"
  by (simp add: file_of_def initial_def)

lemma mints_uuid_other: "mints_uuid ev \<Longrightarrow> \<not> uuid_shaped k \<Longrightarrow> \<not> mints k ev"
  by (cases "(k, ev)" rule: mints.cases) auto

lemma stored_ids_shaped:
  assumes "run initial evs = Some (st, out)" and "list_all mints_uuid evs"
    and "file_of st c k \<noteq> None"
  shows "uuid_shaped k"
proof (rule ccontr)
  assume n: "\<not> uuid_shaped k"
  with assms(2) have "list_all (\<lambda>ev. \<not> mints k ev) evs"
    by (auto simp: list_all_iff mints_uuid_other)
  from run_preserves_absent [OF assms(1) initial_no_file this] assms(3)
  show False by simp
qed

text \<open>
  C5. The code looks up the first 36 bytes of a data frame as they are; it has no step
  that strips spaces. In every state the hub reaches from its initial state, with ids
  of the shape \<open>uuidv4()\<close> returns, this is the handler of the specification, which
  strips the trailing spaces before matching: every stored id has 36 characters and no
  space, so a prefix that ends with a space matches no file before or after stripping,
  and any other prefix is not changed by stripping. For every data frame the two
  handlers reach the same state and send the same frames.
\<close>

theorem binary_prefix_stripping:
  assumes "run initial evs = Some (st, out)"
    and "list_all mints_uuid evs"
  shows "handleBinaryMessage st w deviceId d = handleBinaryMessage_stripping st w deviceId d
         \<and> (\<forall>c k. file_of st c k \<noteq> None \<longrightarrow> uuid_shaped k)"
proof -
  have inv: "\<And>c k. file_of st c k \<noteq> None \<Longrightarrow> uuid_shaped k"
    by (rule stored_ids_shaped [OF assms])
  let ?p = "take 36 d"
  have "handleBinaryMessage st w deviceId d = handleBinaryMessage_stripping st w deviceId d"
  proof (cases "session_of st deviceId")
    case None
    then show ?thesis by (simp add: handleBinaryMessage_def handleBinaryMessage_stripping_def)
  next
    case (Some a)
    obtain c s where a: "a = (c, s)" by (cases a)
    from Some a have so: "session_of st deviceId = Some (c, s)" by simp
    have fo: "\<And>k. file_of st c k = map_of (files s) k"
      using session_of_SomeD [OF so] by (simp add: file_of_def)
    show ?thesis
    proof (cases "?p = [] \<or> last ?p \<noteq> CHR '' ''")
      case True
      then have "strip_trailing_spaces ?p = ?p" by (rule strip_unchanged)
      with so show ?thesis
        by (simp add: handleBinaryMessage_def handleBinaryMessage_stripping_def)
    next
      case False
      then have ne: "?p \<noteq> []" and l: "last ?p = CHR '' ''" by simp_all
      from last_in_set [OF ne] l have "CHR '' '' \<in> set ?p" by simp
      then have "\<not> uuid_shaped ?p" using uuid_shaped_no_space by blast
      with inv [of c ?p] have 1: "map_of (files s) ?p = None"
        by (cases "map_of (files s) ?p") (simp_all add: fo)
      from strip_shorter [OF ne l] have "length (strip_trailing_spaces ?p) < 36" by simp
      then have "\<not> uuid_shaped (strip_trailing_spaces ?p)" by (simp add: uuid_shaped_def)
      with inv [of c "strip_trailing_spaces ?p"]
      have 2: "map_of (files s) (strip_trailing_spaces ?p) = None"
        by (cases "map_of (files s) (strip_trailing_spaces ?p)") (simp_all add: fo)
      from so 1 2 show ?thesis
        by (simp add: handleBinaryMessage_def handleBinaryMessage_stripping_def)
    qed
  qed
  with inv show ?thesis by blast
qed


theorem binary_prefix_stripping_witness:
  "list_all mints_uuid [ev_create, ev_start]
   \<and> uuid_shaped fileF
   \<and> (\<exists>st out.
        run initial [ev_create, ev_start] = Some (st, out)
        \<and> file_of st ''AAAAAA'' fileF \<noteq> None
        \<and> handleBinaryMessage st 1 devA (fileF @ ''hello'')
            = handleBinaryMessage_stripping st 1 devA (fileF @ ''hello'')
        \<and> snd (reached (handleBinaryMessage_stripping st 1 devA (fileF @ ''hello'')))
            = [(1, UploadProgress fileF 5 (JNum 5))]
        \<and> handleBinaryMessage st 1 devA (''f1'' @ replicate 34 (CHR '' '') @ ''hello'')
            = handleBinaryMessage_stripping st 1 devA
                (''f1'' @ replicate 34 (CHR '' '') @ ''hello'')
        \<and> reached (handleBinaryMessage st 1 devA (''f1'' @ replicate 34 (CHR '' '') @ ''hello''))
            = (st, []))"
proof -
  let ?evs = "[ev_create, ev_start]"
  let ?f = "\<lparr>id_file = fileF, originalName = JStr ''hi.txt'', size_file = JNum 5,
              mimetype = JStr ''text/plain'', uploadedAt = 1000, chunks = [],
              receivedSize = 0, uploaderId = devA, data = None\<rparr>"
  let ?s = "\<lparr>devices = [(devA, \<lparr>id_dev = devA, ws_dev = 1, name_dev = JStr ''Mac'',
                type_dev = JStr ''mac'', connectedAt = 1000\<rparr>)],
              files = [(fileF, ?f)], createdAt = 1000\<rparr>"
  let ?pad = "''f1'' @ replicate 34 (CHR '' '') @ ''hello''"
  have m: "list_all mints_uuid ?evs" by code_simp
  have u: "uuid_shaped fileF" by code_simp
  have q: "session_after (run initial ?evs) devA = Some (''AAAAAA'', ?s)" by code_simp
  then obtain st out where r: "run initial ?evs = Some (st, out)"
    by (cases "run initial ?evs") (auto simp: session_after_def)
  from q r have so: "session_of st devA = Some (''AAAAAA'', ?s)"
    by (simp add: session_after_def)
  then have f: "file_of st ''AAAAAA'' fileF = Some ?f"
    using session_of_SomeD [OF so] by (simp add: file_of_def)
  have t: "take 36 (fileF @ ''hello'') = fileF" "drop 36 (fileF @ ''hello'') = ''hello''"
    by (simp_all add: fileF_def)
  have e1: "handleBinaryMessage st 1 devA (fileF @ ''hello'')
            = handleBinaryMessage_stripping st 1 devA (fileF @ ''hello'')"
    using binary_prefix_stripping [OF r m, of 1 devA "fileF @ ''hello''"] by blast
  have e2: "handleBinaryMessage st 1 devA ?pad = handleBinaryMessage_stripping st 1 devA ?pad"
    using binary_prefix_stripping [OF r m, of 1 devA ?pad] by blast
  have p: "take 36 ?pad \<noteq> fileF" by (simp add: fileF_def)
  have o1: "snd (reached (handleBinaryMessage st 1 devA (fileF @ ''hello'')))
            = [(1, UploadProgress fileF 5 (JNum 5))]"
    unfolding handleBinaryMessage_def Let_def t so by simp
  then have o1': "snd (reached (handleBinaryMessage_stripping st 1 devA (fileF @ ''hello'')))
            = [(1, UploadProgress fileF 5 (JNum 5))]"
    by (simp only: e1)
  have n: "file_of st ''AAAAAA'' fileF \<noteq> None" using f by simp
  have o2: "reached (handleBinaryMessage st 1 devA ?pad) = (st, [])"
    using p by (simp add: handleBinaryMessage_def so Let_def)
  from m u r n e1 e2 o1' o2 show ?thesis by blast
qed


section \<open>Session codes\<close>

lemma concat_singletons: "concat (map (\<lambda>i. [f i]) xs) = map f xs"
  by (induction xs) simp_all

lemma generate_valid:
  assumes "\<forall>i. r i < length chars"
  shows "valid_code (fst (generateSessionCode r p))"
proof -
  have "fst (generateSessionCode r p) = map (\<lambda>i. chars ! r (p + i)) [0..<6]"
    using assms by (simp add: generateSessionCode_def charAt_def concat_singletons)
  moreover have "set (map (\<lambda>i. chars ! r (p + i)) [0..<6]) \<subseteq> set chars"
    using assms by (auto simp del: upt_Suc)
  ultimately show ?thesis by (simp add: valid_code_def del: upt_Suc)
qed

lemma snd_generate [simp]: "snd (generateSessionCode r p) = p + 6"
  by (simp add: generateSessionCode_def)

lemma retry_code_fresh: "map_of ss (fst cp) = None \<Longrightarrow> retry_code r ss cp = Some cp"
  by (subst retry_code.simps) simp

lemma retry_code_taken:
  "map_of ss (fst cp) \<noteq> None \<Longrightarrow>
     retry_code r ss cp = retry_code r ss (generateSessionCode r (snd cp))"
  by (subst retry_code.simps) simp

lemma retry_code_result:
  assumes "retry_code r ss cp = Some y"
  shows "map_of ss (fst y) = None
         \<and> (fst y = fst cp \<or> (\<exists>q. fst y = fst (generateSessionCode r q)))"
proof (rule retry_code.raw_induct
    [where P = "\<lambda>r ss cp y. map_of ss (fst y) = None
       \<and> (fst y = fst cp \<or> (\<exists>q. fst y = fst (generateSessionCode r q)))"])
  show "retry_code r ss cp = Some y" by (rule assms)
next
  fix f :: "(nat \<Rightarrow> nat) \<Rightarrow> (string \<times> session) list \<Rightarrow> string \<times> nat
              \<Rightarrow> (string \<times> nat) option"
  fix r ss cp y
  assume IH: "\<And>r ss cp y. f r ss cp = Some y \<Longrightarrow>
      map_of ss (fst y) = None
      \<and> (fst y = fst cp \<or> (\<exists>q. fst y = fst (generateSessionCode r q)))"
  assume eq: "(if map_of ss (fst cp) \<noteq> None then f r ss (generateSessionCode r (snd cp))
               else Some cp) = Some y"
  show "map_of ss (fst y) = None
        \<and> (fst y = fst cp \<or> (\<exists>q. fst y = fst (generateSessionCode r q)))"
  proof (cases "map_of ss (fst cp) \<noteq> None")
    case True
    with eq have "f r ss (generateSessionCode r (snd cp)) = Some y" by simp
    from IH [OF this] show ?thesis by blast
  next
    case False
    with eq show ?thesis by simp
  qed
qed

lemma retry_code_first_fresh:
  assumes "\<forall>i<j. map_of ss (fst (generateSessionCode r (p + 6 * i))) \<noteq> None"
    and "map_of ss (fst (generateSessionCode r (p + 6 * j))) = None"
  shows "retry_code r ss (generateSessionCode r p) = Some (generateSessionCode r (p + 6 * j))"
  using assms
proof (induction j arbitrary: p)
  case 0
  then show ?case by (simp add: retry_code_fresh)
next
  case (Suc j)
  from Suc.prems(1) have t: "map_of ss (fst (generateSessionCode r p)) \<noteq> None"
    by (metis add.right_neutral mult_0_right zero_less_Suc)
  have a: "\<forall>i<j. map_of ss (fst (generateSessionCode r (p + 6 + 6 * i))) \<noteq> None"
  proof (intro allI impI)
    fix i assume "i < j"
    then have "Suc i < Suc j" by simp
    from Suc.prems(1) [rule_format, OF this] show
      "map_of ss (fst (generateSessionCode r (p + 6 + 6 * i))) \<noteq> None"
      by (simp add: add.assoc)
  qed
  have b: "map_of ss (fst (generateSessionCode r (p + 6 + 6 * j))) = None"
    using Suc.prems(2) by (simp add: add.assoc)
  from Suc.IH [OF a b] show ?case
    by (simp add: retry_code_taken [OF t] add.assoc)
qed

lemma update_fresh: "map_of al k = None \<Longrightarrow> AList.update k v al = al @ [(k, v)]"
  by (induction al) (auto split: if_splits)

lemma create_session_result:
  assumes "handle_create_session st w d n t e = Some (st', out)"
  shows "\<exists>c p. retry_code (rnd e) (sessions st) (generateSessionCode (rnd e) 0) = Some (c, p)
           \<and> map_of (sessions st) c = None
           \<and> map fst (sessions st') = map fst (sessions st) @ [c]
           \<and> out = [(w, SessionCreated c d 1)]"
proof -
  from assms obtain c p where
    r: "retry_code (rnd e) (sessions st) (generateSessionCode (rnd e) 0) = Some (c, p)"
    by (auto simp: handle_create_session_def split: option.splits)
  from retry_code_result [OF r] have f: "map_of (sessions st) c = None" by simp
  from assms r f show ?thesis
    by (auto simp: handle_create_session_def Let_def set_session_def update_fresh)
qed

lemma create_session_valid:
  assumes "handle_create_session st w d n t e = Some (st', out)"
    and "\<forall>i. rnd e i < length chars"
  shows "\<exists>c. map_of (sessions st) c = None \<and> valid_code c
           \<and> map fst (sessions st') = map fst (sessions st) @ [c]
           \<and> out = [(w, SessionCreated c d 1)]"
proof -
  from create_session_result [OF assms(1)] obtain c p where
    r: "retry_code (rnd e) (sessions st) (generateSessionCode (rnd e) 0) = Some (c, p)"
    and f: "map_of (sessions st) c = None"
    and k: "map fst (sessions st') = map fst (sessions st) @ [c]"
    and o: "out = [(w, SessionCreated c d 1)]"
    by blast
  from retry_code_result [OF r] obtain q where "c = fst (generateSessionCode (rnd e) q)"
    by auto
  with generate_valid [OF assms(2)] have "valid_code c" by simp
  with f k o show ?thesis by blast
qed

lemma create_session_returns:
  assumes "\<forall>i<j. map_of (sessions st) (nth_code (rnd e) i) \<noteq> None"
    and "map_of (sessions st) (nth_code (rnd e) j) = None"
  shows "\<exists>st'. handle_create_session st w d n t e
           = Some (st', [(w, SessionCreated (nth_code (rnd e) j) d 1)])"
proof -
  have "retry_code (rnd e) (sessions st) (generateSessionCode (rnd e) 0)
          = Some (generateSessionCode (rnd e) (0 + 6 * j))"
    by (rule retry_code_first_fresh) (use assms in \<open>simp_all add: nth_code_def\<close>)
  then have "retry_code (rnd e) (sessions st) (generateSessionCode (rnd e) 0)
          = Some (nth_code (rnd e) j, 6 * j + 6)"
    by (simp add: nth_code_def prod_eq_iff)
  then show ?thesis
    by (simp add: handle_create_session_def Let_def)
qed

lemma map_of_Some_key: "map_of al k = Some v \<Longrightarrow> k \<in> fst ` set al"
  by (force dest: map_of_SomeD)

lemma keys_set_session:
  "map_of (sessions st) c = Some s \<Longrightarrow>
     map fst (sessions (set_session st c s')) = map fst (sessions st)"
  by (simp add: set_session_def update_keys map_of_Some_key)

lemma codes_ok_cong:
  "map fst (sessions st') = map fst (sessions st) \<Longrightarrow> codes_ok st' = codes_ok st"
  by (simp add: codes_ok_def)

lemma codes_ok_delete:
  "codes_ok st \<Longrightarrow> codes_ok (st\<lparr>sessions := AList.delete c (sessions st)\<rparr>)"
  by (auto simp: codes_ok_def delete_keys distinct_removeAll list_all_iff)

lemma keys_join:
  "handle_join_session st w d code n t e = Inr (st', out) \<Longrightarrow>
     map fst (sessions st') = map fst (sessions st)"
  by (auto simp: handle_join_session_def Let_def set_session_def update_keys map_of_Some_key
      split: option.splits sum.splits)

lemma keys_file_start:
  "map fst (sessions (fst (handle_file_start st w d a b m e))) = map fst (sessions st)"
  by (auto simp: handle_file_start_def Let_def set_file_def keys_set_session
      dest!: session_of_SomeD split: option.splits)

lemma keys_file_complete:
  "map fst (sessions (fst (handle_file_complete st w d v))) = map fst (sessions st)"
  by (auto simp: handle_file_complete_def Let_def set_file_def keys_set_session
      dest!: session_of_SomeD split: option.splits)

lemma keys_delete_file:
  "map fst (sessions (fst (handle_delete_file st w d v))) = map fst (sessions st)"
  by (auto simp: handle_delete_file_def Let_def keys_set_session
      dest!: session_of_SomeD split: option.splits)

lemma keys_binary:
  "map fst (sessions (fst (reached (handleBinaryMessage st w d b)))) = map fst (sessions st)"
  by (auto simp: handleBinaryMessage_def Let_def set_file_def keys_set_session
      dest!: session_of_SomeD split: option.splits)

lemma keys_close:
  "map fst (sessions (fst (handle_close st w d))) = map fst (sessions st)"
  by (auto simp: handle_close_def Let_def keys_set_session
      dest!: session_of_SomeD split: option.splits)

lemma codes_ok_timeout:
  "codes_ok st \<Longrightarrow> codes_ok (empty_session_timeout (st\<lparr>timers := ts\<rparr>) c)"
  using codes_ok_delete [of "st\<lparr>timers := ts\<rparr>" c]
  by (auto simp: empty_session_timeout_def codes_ok_def split: option.splits)

lemma keys_janitor_files:
  "map fst (sessions (fst (reached (janitor_files t c fs st)))) = map fst (sessions st)"
proof (induction fs arbitrary: st)
  case Nil
  show ?case by simp
next
  case (Cons a fs)
  obtain fileId f where a: "a = (fileId, f)" by (cases a)
  let ?st1 = "case map_of (sessions st) c of
                None \<Rightarrow> st
              | Some session \<Rightarrow>
                  set_session st c (session\<lparr>files := AList.delete fileId (files session)\<rparr>)"
  have "map fst (sessions ?st1) = map fst (sessions st)"
    by (simp add: keys_set_session split: option.splits)
  with Cons.IH [of ?st1] Cons.IH [of st] a show ?case
    by (simp add: Let_def)
qed

lemma codes_ok_janitor_sessions:
  "codes_ok st \<Longrightarrow> codes_ok (fst (reached (janitor_sessions t ss st)))"
proof (induction ss arbitrary: st)
  case Nil
  then show ?case by simp
next
  case (Cons a ss)
  obtain c s where a: "a = (c, s)" by (cases a)
  have k: "codes_ok (fst (reached (janitor_files t c (files s) st)))"
    using Cons.prems codes_ok_cong [OF keys_janitor_files] by simp
  show ?case
  proof (cases "janitor_files t c (files s) st")
    case (Throws err r)
    with k a show ?thesis by simp
  next
    case (Returns r)
    obtain st1 out where r: "r = (st1, out)" by (cases r)
    let ?st2 = "if devices s = [] \<and> createdAt s < t
                then st1\<lparr>sessions := AList.delete c (sessions st1)\<rparr> else st1"
    from k Returns r have "codes_ok st1" by simp
    then have "codes_ok ?st2" by (simp add: codes_ok_delete)
    from Cons.IH [OF this] Returns r a show ?thesis
      by (simp add: Let_def)
  qed
qed

lemma step_preserves_codes_ok:
  assumes "step st ev = Some (st', out)" and "codes_ok st" and "draws_in_range ev"
  shows "codes_ok st'"
proof (cases ev)
  case (Connection w d)
  with assms show ?thesis by simp
next
  case (JsonMessage w d m e)
  show ?thesis
  proof (cases m)
    case (create_session n t)
    with assms JsonMessage have h: "handle_create_session st w d n t e = Some (st', out)"
      and r: "\<forall>i. rnd e i < length chars"
      by (auto split: option.splits)
    from create_session_valid [OF h r] obtain c where
      "map_of (sessions st) c = None" "valid_code c"
      "map fst (sessions st') = map fst (sessions st) @ [c]"
      by blast
    with assms(2) show ?thesis
      by (auto simp: codes_ok_def map_of_eq_None_iff)
  next
    case (join_session code n t)
    with assms JsonMessage show ?thesis
      by (auto simp: codes_ok_cong [OF keys_join] split: sum.splits)
  next
    case (file_start a b m')
    with assms JsonMessage show ?thesis
      using codes_ok_cong [OF keys_file_start, of st w d a b m' e] by auto
  next
    case (file_complete v)
    with assms JsonMessage show ?thesis
      using codes_ok_cong [OF keys_file_complete, of st w d v] by auto
  next
    case (request_file v)
    with assms JsonMessage show ?thesis
      using request_unchanged [of st w d v] by auto
  next
    case (delete_file v)
    with assms JsonMessage show ?thesis
      using codes_ok_cong [OF keys_delete_file, of st w d v] by auto
  next
    case ping
    with assms JsonMessage show ?thesis by auto
  next
    case unrecognised
    with assms JsonMessage show ?thesis by auto
  qed
next
  case (BinaryMessage w d b)
  with assms show ?thesis using codes_ok_cong [OF keys_binary, of st w d b]
    by (auto dest!: returned_reached)
next
  case (SocketState w r)
  with assms show ?thesis by (auto simp: codes_ok_def)
next
  case (Close w d)
  with assms show ?thesis using codes_ok_cong [OF keys_close, of st w d] by auto
next
  case Timeout
  with assms show ?thesis by (auto simp: codes_ok_timeout split: list.splits)
next
  case (Janitor t)
  with assms show ?thesis
    using codes_ok_janitor_sessions [of st "t - FILE_TTL" "sessions st"]
    by (auto simp: janitor_def dest!: returned_reached)
qed

lemma run_preserves_codes_ok:
  assumes "run st evs = Some (st', out)" and "codes_ok st" and "list_all draws_in_range evs"
  shows "codes_ok st'"
  using assms
proof (induction evs arbitrary: st out)
  case Nil
  then show ?case by simp
next
  case (Cons ev evs)
  from Cons.prems(1) obtain st1 out1 out2 where
    s: "step st ev = Some (st1, out1)" and r: "run st1 evs = Some (st', out2)"
    by (auto split: option.splits)
  from Cons.prems have "codes_ok st1"
    using step_preserves_codes_ok [OF s] by simp
  from Cons.IH [OF r this] Cons.prems(3) show ?case by simp
qed

lemma codes_ok_initial: "codes_ok initial"
  by (simp add: codes_ok_def initial_def)

text \<open>
  C8. In every state the hub reaches from its start, whatever the events (each random
  draw being an index of the alphabet), no code is the key of two sessions and every
  code is six characters of \<open>ABCDEFGHJKLMNPQRSTUVWXYZ23456789\<close>. There, a
  \<open>create_session\<close> that returns has minted a code that was no key of the registry,
  and has added exactly that key; and it does return, with the \<open>j\<close>-th code it
  generates, as soon as that code is the first one that is not already a key.
\<close>

theorem session_codes_unique:
  assumes "run initial evs = Some (st, out)" and "list_all draws_in_range evs"
  shows "distinct (map fst (sessions st))
    \<and> list_all valid_code (map fst (sessions st))
    \<and> (\<forall>w d n t e st' out'.
          (\<forall>i. rnd e i < length chars) \<and>
          handle_create_session st w d n t e = Some (st', out') \<longrightarrow>
          (\<exists>c. map_of (sessions st) c = None \<and> valid_code c
               \<and> map fst (sessions st') = map fst (sessions st) @ [c]
               \<and> out' = [(w, SessionCreated c d 1)]))
    \<and> (\<forall>w d n t e j.
          (\<forall>i<j. map_of (sessions st) (nth_code (rnd e) i) \<noteq> None) \<and>
          map_of (sessions st) (nth_code (rnd e) j) = None \<longrightarrow>
          (\<exists>st'. handle_create_session st w d n t e
                   = Some (st', [(w, SessionCreated (nth_code (rnd e) j) d 1)])))"
proof -
  have "codes_ok st"
    by (rule run_preserves_codes_ok [OF assms(1) codes_ok_initial assms(2)])
  then show ?thesis
    using create_session_valid create_session_returns
    by (simp add: codes_ok_def) blast
qed

theorem session_codes_unique_witness:
  "list_all draws_in_range [ev_create]
   \<and> nth_code (rnd env_retry) 0 = ''AAAAAA''
   \<and> nth_code (rnd env_retry) 1 = ''BBBBBB''
   \<and> (\<exists>st out.
        run initial [ev_create] = Some (st, out)
        \<and> map fst (sessions st) = [''AAAAAA'']
        \<and> distinct (map fst (sessions st))
        \<and> list_all valid_code (map fst (sessions st))
        \<and> (\<exists>st'. handle_create_session st 2 devB (JStr ''iPhone'') (JStr ''iphone'') env_retry
                  = Some (st', [(2, SessionCreated ''BBBBBB'' devB 1)])))"
proof -
  have d: "list_all draws_in_range [ev_create]"
    by (simp add: ev_create_def env0_def chars_def)
  have n0: "nth_code (rnd env_retry) 0 = ''AAAAAA''" by code_simp
  have n1: "nth_code (rnd env_retry) 1 = ''BBBBBB''" by code_simp
  have c: "codes_after (run initial [ev_create]) = Some [''AAAAAA'']" by code_simp
  then obtain st out where r: "run initial [ev_create] = Some (st, out)"
    and k: "map fst (sessions st) = [''AAAAAA'']"
    by (cases "run initial [ev_create]") (auto simp: codes_after_def)
  from k have f: "fst ` set (sessions st) = {''AAAAAA''}"
    by (metis list.set_map list.simps(15) empty_set)
  have m0: "\<forall>i<1. map_of (sessions st) (nth_code (rnd env_retry) i) \<noteq> None"
    using f n0 by (simp add: map_of_eq_None_iff)
  have m1: "map_of (sessions st) (nth_code (rnd env_retry) 1) = None"
    using f n1 by (simp add: map_of_eq_None_iff)
  note T = session_codes_unique [OF r d]
  from T m0 m1 have
    "\<exists>st'. handle_create_session st 2 devB (JStr ''iPhone'') (JStr ''iphone'') env_retry
        = Some (st', [(2, SessionCreated (nth_code (rnd env_retry) 1) devB 1)])"
    by blast
  with T d n0 n1 r k show ?thesis by auto
qed

section \<open>The sweep of the janitor\<close>

lemma broadcast_all_set_session:
  "broadcastToSession (set_session st c s) c msg None = open_sends (sockets st) (devices s) msg"
  by (simp add: open_sends_def)

lemma set_session_same: "map_of (sessions st) c = Some s \<Longrightarrow> set_session st c s = st"
  by (simp add: set_session_def update_triv)

lemma set_session_twice: "set_session (set_session st c s) c s' = set_session st c s'"
  by (simp add: set_session_def)

text \<open>
  When the name of no expired file of the session throws on conversion, the sweep of
  the session returns: it has removed the expired files and has told every open member
  of each, in the order of the store.
\<close>

lemma janitor_files_eq:
  assumes "map_of (sessions st) c = Some s"
    and "\<forall>(k, f) \<in> set fs. uploadedAt f < t \<longrightarrow> \<not> toPrimitive_throws (originalName f)"
  shows "janitor_files t c fs st =
     Returns (set_session st c
        (s\<lparr>files := filter (\<lambda>e. fst e \<notin> fst ` {e \<in> set fs. uploadedAt (snd e) < t})
                        (files s)\<rparr>),
      concat (map (\<lambda>e. if uploadedAt (snd e) < t
                        then open_sends (sockets st) (devices s) (FileRemoved (fst e))
                        else []) fs))"
  using assms
proof (induction fs arbitrary: st s)
  case Nil
  then show ?case by (simp add: set_session_same)
next
  case (Cons a fs)
  obtain k f where a: "a = (k, f)" by (cases a)
  from Cons.prems(2) have rest:
    "\<forall>(k, f) \<in> set fs. uploadedAt f < t \<longrightarrow> \<not> toPrimitive_throws (originalName f)"
    by simp
  show ?case
  proof (cases "uploadedAt f < t")
    case False
    then have "{e \<in> set (a # fs). uploadedAt (snd e) < t} = {e \<in> set fs. uploadedAt (snd e) < t}"
      using a by auto
    with Cons.IH [OF Cons.prems(1) rest] False a show ?thesis by simp
  next
    case True
    with Cons.prems(2) a have nt: "\<not> toPrimitive_throws (originalName f)" by simp
    let ?s1 = "s\<lparr>files := AList.delete k (files s)\<rparr>"
    let ?st1 = "set_session st c ?s1"
    have m: "map_of (sessions ?st1) c = Some ?s1" by simp
    have x: "filter (\<lambda>e. fst e \<notin> fst ` {e \<in> set fs. uploadedAt (snd e) < t})
               (AList.delete k (files s))
             = filter (\<lambda>e. fst e \<notin> fst ` {e \<in> set (a # fs). uploadedAt (snd e) < t}) (files s)"
    proof -
      have "fst ` {e \<in> set (a # fs). uploadedAt (snd e) < t}
              = insert k (fst ` {e \<in> set fs. uploadedAt (snd e) < t})"
        using True a by (auto intro: image_eqI [where x = "(k, f)"])
      then show ?thesis
        by (auto simp: AList.delete_eq intro!: filter_cong)
    qed
    from Cons.IH [OF m rest] True a Cons.prems(1) x nt show ?thesis
      by (simp add: Let_def set_session_twice open_sends_def cong: if_cong)
  qed
qed


lemma sockets_janitor_files [simp]:
  "sockets (fst (reached (janitor_files t c fs st))) = sockets st"
proof (induction fs arbitrary: st)
  case Nil
  show ?case by simp
next
  case (Cons a fs)
  obtain k f where a: "a = (k, f)" by (cases a)
  let ?st1 = "case map_of (sessions st) c of
                None \<Rightarrow> st
              | Some session \<Rightarrow>
                  set_session st c (session\<lparr>files := AList.delete k (files session)\<rparr>)"
  have "sockets ?st1 = sockets st" by (simp split: option.splits)
  with Cons.IH [of ?st1] Cons.IH [of st] a show ?case
    by (simp add: Let_def)
qed

lemma other_session_janitor_files:
  "c' \<noteq> c \<Longrightarrow>
     map_of (sessions (fst (reached (janitor_files t c fs st)))) c' = map_of (sessions st) c'"
proof (induction fs arbitrary: st)
  case Nil
  show ?case by simp
next
  case (Cons a fs)
  obtain k f where a: "a = (k, f)" by (cases a)
  let ?st1 = "case map_of (sessions st) c of
                None \<Rightarrow> st
              | Some session \<Rightarrow>
                  set_session st c (session\<lparr>files := AList.delete k (files session)\<rparr>)"
  have "map_of (sessions ?st1) c' = map_of (sessions st) c'"
    using Cons.prems by (simp split: option.splits)
  with Cons.IH [OF Cons.prems, of ?st1] Cons.IH [OF Cons.prems, of st] a show ?case
    by (simp add: Let_def)
qed

lemma sends_janitor_files:
  "x \<in> set (snd (reached (janitor_files t c fs st)))
     \<Longrightarrow> \<exists>k \<in> fst ` set fs. snd x = FileRemoved k"
proof (induction fs arbitrary: st)
  case Nil
  then show ?case by simp
next
  case (Cons a fs)
  obtain k f where a: "a = (k, f)" by (cases a)
  show ?case
  proof (cases "uploadedAt f < t")
    case False
    with Cons a show ?thesis by auto
  next
    case True
    let ?st1 = "case map_of (sessions st) c of
                  None \<Rightarrow> st
                | Some session \<Rightarrow>
                    set_session st c (session\<lparr>files := AList.delete k (files session)\<rparr>)"
    from Cons.prems True a have
      "x \<in> set (broadcastToSession ?st1 c (FileRemoved k) None)
       \<or> x \<in> set (snd (reached (janitor_files t c fs ?st1)))"
      by (auto simp: Let_def split: if_splits)
    then show ?thesis
    proof
      assume "x \<in> set (broadcastToSession ?st1 c (FileRemoved k) None)"
      then have "snd x = FileRemoved k"
        by (auto simp: broadcastToSession_def split: option.splits)
      with a show ?thesis by simp
    next
      assume "x \<in> set (snd (reached (janitor_files t c fs ?st1)))"
      from Cons.IH [OF this] show ?thesis by auto
    qed
  qed
qed

lemma filter_open_sends:
  "filter (\<lambda>x. snd x = FileRemoved k) (open_sends S D (FileRemoved k'))
     = (if k' = k then open_sends S D (FileRemoved k) else [])"
  by (auto simp: open_sends_def filter_empty_conv)

lemma filter_sends_other:
  "k \<notin> fst ` set fs \<Longrightarrow>
     filter (\<lambda>x. snd x = FileRemoved k)
       (concat (map (\<lambda>e. if uploadedAt (snd e) < t
                         then open_sends S D (FileRemoved (fst e)) else []) fs)) = []"
  by (induction fs) (auto simp: filter_open_sends)

lemma filter_sends_own:
  assumes "distinct (map fst fs)" and "(k, f) \<in> set fs" and "uploadedAt f < t"
  shows "filter (\<lambda>x. snd x = FileRemoved k)
           (concat (map (\<lambda>e. if uploadedAt (snd e) < t
                             then open_sends S D (FileRemoved (fst e)) else []) fs))
         = open_sends S D (FileRemoved k)"
  using assms
proof (induction fs)
  case Nil
  then show ?case by simp
next
  case (Cons a fs)
  show ?case
  proof (cases "a = (k, f)")
    case True
    with Cons.prems have "k \<notin> fst ` set fs" by simp
    from filter_sends_other [OF this, of t S D] True Cons.prems(3) show ?thesis
      by (simp add: filter_open_sends)
  next
    case False
    with Cons.prems have m: "(k, f) \<in> set fs" and d: "distinct (map fst fs)"
      and n: "fst a \<noteq> k"
      by (auto simp: image_iff)
    from Cons.IH [OF d m Cons.prems(3)] n show ?thesis
      by (simp add: filter_open_sends)
  qed
qed

lemma own_turn:
  assumes "map_of (sessions st) c = Some s"
    and "distinct (map fst (files s))"
    and "(k, f) \<in> set (files s)"
    and "uploadedAt f < t"
    and "\<forall>(k, f) \<in> set (files s).
           uploadedAt f < t \<longrightarrow> \<not> toPrimitive_throws (originalName f)"
  shows "file_of (fst (reached (janitor_files t c (files s) st))) c k = None"
    and "filter (\<lambda>x. snd x = FileRemoved k) (snd (reached (janitor_files t c (files s) st)))
           = open_sends (sockets st) (devices s) (FileRemoved k)"
    and "\<exists>r. janitor_files t c (files s) st = Returns r"
proof -
  have "k \<in> fst ` {e \<in> set (files s). uploadedAt (snd e) < t}"
    using assms(3,4) by (auto intro: image_eqI [where x = "(k, f)"])
  then have "k \<notin> fst ` set (filter (\<lambda>e. fst e \<notin> fst ` {e \<in> set (files s). uploadedAt (snd e) < t})
                               (files s))"
    by (auto simp: image_iff)
  then show "file_of (fst (reached (janitor_files t c (files s) st))) c k = None"
    by (simp add: janitor_files_eq [OF assms(1,5)] map_of_eq_None_iff del: set_filter)
  show "filter (\<lambda>x. snd x = FileRemoved k) (snd (reached (janitor_files t c (files s) st)))
           = open_sends (sockets st) (devices s) (FileRemoved k)"
    by (simp add: janitor_files_eq [OF assms(1,5)] filter_sends_own [OF assms(2,3,4)])
  show "\<exists>r. janitor_files t c (files s) st = Returns r"
    by (simp add: janitor_files_eq [OF assms(1,5)])
qed

text \<open>One turn of the outer loop, when the sweep of the session returns.\<close>

lemma janitor_sessions_turn:
  assumes "janitor_files t c (files s) st = Returns r"
  shows "janitor_sessions t ((c, s) # ss) st
     = after_sending (snd r)
         (janitor_sessions t ss
            (if devices s = [] \<and> createdAt s < t
             then (fst r)\<lparr>sessions := AList.delete c (sessions (fst r))\<rparr> else fst r))"
  using assms by (cases r) (simp add: Let_def)

lemma janitor_sessions_stop:
  assumes "janitor_files t c (files s) st = Throws err r"
  shows "janitor_sessions t ((c, s) # ss) st = Throws err r"
  using assms by simp

lemma sockets_janitor_sessions [simp]:
  "sockets (fst (reached (janitor_sessions t ss st))) = sockets st"
proof (induction ss arbitrary: st)
  case Nil
  show ?case by simp
next
  case (Cons a ss)
  obtain c s where a: "a = (c, s)" by (cases a)
  have f: "sockets (fst (reached (janitor_files t c (files s) st))) = sockets st" by simp
  show ?case
  proof (cases "janitor_files t c (files s) st")
    case (Throws err r)
    with f a show ?thesis by (simp del: janitor_sessions.simps add: janitor_sessions_stop)
  next
    case (Returns r)
    let ?st2 = "if devices s = [] \<and> createdAt s < t
                then (fst r)\<lparr>sessions := AList.delete c (sessions (fst r))\<rparr> else fst r"
    from f Returns have "sockets ?st2 = sockets st" by simp
    with Cons.IH [of ?st2] a show ?thesis
      by (simp del: janitor_sessions.simps add: janitor_sessions_turn [OF Returns])
  qed
qed

lemma no_sends_janitor_sessions:
  assumes "\<forall>(c', s') \<in> set ss. k \<notin> fst ` set (files s')"
  shows "filter (\<lambda>x. snd x = FileRemoved k) (snd (reached (janitor_sessions t ss st))) = []"
  using assms
proof (induction ss arbitrary: st)
  case Nil
  show ?case by simp
next
  case (Cons a ss)
  obtain c s where a: "a = (c, s)" by (cases a)
  from Cons.prems a have n: "k \<notin> fst ` set (files s)" by simp
  have o: "filter (\<lambda>x. snd x = FileRemoved k)
             (snd (reached (janitor_files t c (files s) st))) = []"
    unfolding filter_empty_conv
  proof
    fix x assume "x \<in> set (snd (reached (janitor_files t c (files s) st)))"
    from sends_janitor_files [OF this] n show "\<not> snd x = FileRemoved k"
      by (auto simp: image_iff)
  qed
  from Cons.prems have rest: "\<forall>(c', s') \<in> set ss. k \<notin> fst ` set (files s')" by simp
  show ?case
  proof (cases "janitor_files t c (files s) st")
    case (Throws err r)
    with o a show ?thesis by (simp del: janitor_sessions.simps add: janitor_sessions_stop)
  next
    case (Returns r)
    let ?st2 = "if devices s = [] \<and> createdAt s < t
                then (fst r)\<lparr>sessions := AList.delete c (sessions (fst r))\<rparr> else fst r"
    from Cons.IH [OF rest, of ?st2] o Returns a show ?thesis
      by (simp del: janitor_sessions.simps add: janitor_sessions_turn [OF Returns])
  qed
qed

lemma janitor_files_returns:
  assumes "\<forall>(k, f) \<in> set fs. uploadedAt f < t \<longrightarrow> \<not> toPrimitive_throws (originalName f)"
  shows "\<exists>r. janitor_files t c fs st = Returns r"
  using assms
proof (induction fs arbitrary: st)
  case Nil
  show ?case by simp
next
  case (Cons a fs)
  obtain k f where a: "a = (k, f)" by (cases a)
  from Cons.prems have rest:
    "\<forall>(k, f) \<in> set fs. uploadedAt f < t \<longrightarrow> \<not> toPrimitive_throws (originalName f)"
    by simp
  let ?st1 = "case map_of (sessions st) c of
                None \<Rightarrow> st
              | Some session \<Rightarrow>
                  set_session st c (session\<lparr>files := AList.delete k (files session)\<rparr>)"
  from Cons.IH [OF rest, of st] obtain r0 where r0: "janitor_files t c fs st = Returns r0"
    by blast
  from Cons.IH [OF rest, of ?st1] obtain r1 where r1: "janitor_files t c fs ?st1 = Returns r1"
    by blast
  from Cons.prems a r0 r1 show ?case
    by (cases r1) (auto simp: Let_def)
qed

lemma janitor_sessions_returns:
  assumes "\<forall>(c, s) \<in> set ss. \<forall>(k, f) \<in> set (files s).
             uploadedAt f < t \<longrightarrow> \<not> toPrimitive_throws (originalName f)"
  shows "\<exists>r. janitor_sessions t ss st = Returns r"
  using assms
proof (induction ss arbitrary: st)
  case Nil
  show ?case by simp
next
  case (Cons a ss)
  obtain c s where a: "a = (c, s)" by (cases a)
  from Cons.prems a have own:
    "\<forall>(k, f) \<in> set (files s). uploadedAt f < t \<longrightarrow> \<not> toPrimitive_throws (originalName f)"
    by simp
  from Cons.prems have rest: "\<forall>(c, s) \<in> set ss. \<forall>(k, f) \<in> set (files s).
             uploadedAt f < t \<longrightarrow> \<not> toPrimitive_throws (originalName f)"
    by simp
  from janitor_files_returns [OF own, of c st] obtain r where
    r: "janitor_files t c (files s) st = Returns r" by blast
  let ?st2 = "if devices s = [] \<and> createdAt s < t
              then (fst r)\<lparr>sessions := AList.delete c (sessions (fst r))\<rparr> else fst r"
  from Cons.IH [OF rest, of ?st2] obtain r' where "janitor_sessions t ss ?st2 = Returns r'"
    by blast
  with a show ?case
    by (cases r') (simp del: janitor_sessions.simps add: janitor_sessions_turn [OF r])
qed

lemma janitor_sessions_removed:
  assumes "distinct (map fst ss)"
    and "\<forall>(c', s') \<in> set ss. map_of (sessions st) c' = Some s'"
    and "(c, s) \<in> set ss"
    and "distinct (map fst (files s))"
    and "(k, f) \<in> set (files s)"
    and "uploadedAt f < t"
    and "\<forall>(c', s') \<in> set ss. c' \<noteq> c \<longrightarrow> k \<notin> fst ` set (files s')"
    and "\<forall>(c', s') \<in> set ss. \<forall>(k', f') \<in> set (files s').
           uploadedAt f' < t \<longrightarrow> \<not> toPrimitive_throws (originalName f')"
  shows "file_of (fst (reached (janitor_sessions t ss st))) c k = None
         \<and> filter (\<lambda>x. snd x = FileRemoved k) (snd (reached (janitor_sessions t ss st)))
             = open_sends (sockets st) (devices s) (FileRemoved k)"
  using assms(1,2,3,7,8)
proof (induction ss arbitrary: st)
  case Nil
  then show ?case by simp
next
  case (Cons a ss)
  obtain c0 s0 where a: "a = (c0, s0)" by (cases a)
  from Cons.prems(5) a have own0:
    "\<forall>(k', f') \<in> set (files s0). uploadedAt f' < t \<longrightarrow> \<not> toPrimitive_throws (originalName f')"
    by simp
  from Cons.prems(5) have names: "\<forall>(c', s') \<in> set ss. \<forall>(k', f') \<in> set (files s').
           uploadedAt f' < t \<longrightarrow> \<not> toPrimitive_throws (originalName f')"
    by simp
  from janitor_files_returns [OF own0, of c0 st] obtain r where
    r: "janitor_files t c0 (files s0) st = Returns r" by blast
  let ?st1 = "fst r"
  let ?out1 = "snd r"
  let ?st2 = "if devices s0 = [] \<and> createdAt s0 < t
              then ?st1\<lparr>sessions := AList.delete c0 (sessions ?st1)\<rparr> else ?st1"
  have rr: "reached (janitor_files t c0 (files s0) st) = r" by (simp add: r)
  have unfold: "reached (janitor_sessions t (a # ss) st)
      = (fst (reached (janitor_sessions t ss ?st2)),
         ?out1 @ snd (reached (janitor_sessions t ss ?st2)))"
    unfolding a janitor_sessions_turn [OF r] by (simp add: prod_eq_iff)
  from Cons.prems(1) a have c0: "c0 \<notin> fst ` set ss" and d: "distinct (map fst ss)"
    by simp_all
  show ?case
  proof (cases "c0 = c")
    case True
    with Cons.prems(3) a c0 have s0: "s0 = s" by (auto simp: image_iff)
    from Cons.prems(2) a True s0 have m: "map_of (sessions st) c = Some s" by simp
    from own0 s0 have own: "\<forall>(k', f') \<in> set (files s).
        uploadedAt f' < t \<longrightarrow> \<not> toPrimitive_throws (originalName f')"
      by simp
    note turn = own_turn [OF m assms(4,5,6) own]
    from turn(1) True s0 rr have "file_of ?st2 c k = None"
      by (auto simp: file_of_def delete_conv' split: option.splits)
    with kept_janitor_sessions [of t ss ?st2 c k]
    have g1: "file_of (fst (reached (janitor_sessions t ss ?st2))) c k = None"
      by auto
    have "\<forall>(c', s') \<in> set ss. k \<notin> fst ` set (files s')"
    proof (intro ballI)
      fix x assume "x \<in> set ss"
      moreover obtain c' s' where x: "x = (c', s')" by (cases x)
      ultimately have i: "(c', s') \<in> set ss" by simp
      from i c0 True have "c' \<noteq> c" by (auto simp: image_iff)
      with Cons.prems(4) i have "k \<notin> fst ` set (files s')" by auto
      with x show "case x of (c', s') \<Rightarrow> k \<notin> fst ` set (files s')" by simp
    qed
    from no_sends_janitor_sessions [OF this, of t ?st2]
    have g2: "filter (\<lambda>x. snd x = FileRemoved k)
                (snd (reached (janitor_sessions t ss ?st2))) = []" .
    from turn(2) True s0 rr have g3: "filter (\<lambda>x. snd x = FileRemoved k) ?out1
        = open_sends (sockets st) (devices s) (FileRemoved k)"
      by simp
    from g1 g2 g3 show ?thesis
      by (simp add: unfold)
  next
    case False
    with Cons.prems(3) a have in_rest: "(c, s) \<in> set ss" by simp
    from Cons.prems(4) a False have n: "k \<notin> fst ` set (files s0)" by simp
    have o1: "filter (\<lambda>x. snd x = FileRemoved k) ?out1 = []"
      unfolding filter_empty_conv
    proof
      fix x assume "x \<in> set ?out1"
      then have "x \<in> set (snd (reached (janitor_files t c0 (files s0) st)))"
        by (simp add: rr)
      from sends_janitor_files [OF this] n show "\<not> snd x = FileRemoved k"
        by (auto simp: image_iff)
    qed
    have sk: "sockets ?st2 = sockets st"
      using sockets_janitor_files [of t c0 "files s0" st] by (simp add: rr)
    have snap: "\<forall>(c', s') \<in> set ss. map_of (sessions ?st2) c' = Some s'"
    proof (intro ballI)
      fix x assume "x \<in> set ss"
      moreover obtain c' s' where x: "x = (c', s')" by (cases x)
      ultimately have i: "(c', s') \<in> set ss" by simp
      with c0 have ne: "c' \<noteq> c0" by (auto simp: image_iff)
      from Cons.prems(2) i have "map_of (sessions st) c' = Some s'" by auto
      with ne other_session_janitor_files [OF ne, of t "files s0" st]
      have "map_of (sessions ?st2) c' = Some s'"
        by (simp add: rr delete_conv')
      with x show "case x of (c', s') \<Rightarrow> map_of (sessions ?st2) c' = Some s'" by simp
    qed
    have rest7: "\<forall>(c', s') \<in> set ss. c' \<noteq> c \<longrightarrow> k \<notin> fst ` set (files s')"
      using Cons.prems(4) by simp
    from Cons.IH [OF d snap in_rest rest7 names] o1 sk show ?thesis
      by (simp add: unfold)
  qed
qed

text \<open>
  C7, as the code has it. The registry and the file stores being Maps (no key twice)
  and file ids being unique across sessions, a janitor tick returns when the name of no
  expired file is an object whose conversion to a string throws. Then every file whose
  \<open>uploadedAt\<close> is more than \<open>FILE_TTL\<close> (30 minutes) before the tick is absent from
  its session's store, and the \<open>file_removed\<close> frames of the tick that carry its id are
  exactly one for each member of that session whose socket is open, on that member's
  socket; a member whose socket is not open is sent none.
\<close>

theorem janitor_expires_files:
  assumes "distinct (map fst (sessions st))"
    and "(c, s) \<in> set (sessions st)"
    and "distinct (map fst (files s))"
    and "(k, f) \<in> set (files s)"
    and "uploadedAt f < t_now - FILE_TTL"
    and "\<forall>(c', s') \<in> set (sessions st). c' \<noteq> c \<longrightarrow> k \<notin> fst ` set (files s')"
    and "\<forall>(c', s') \<in> set (sessions st). \<forall>(k', f') \<in> set (files s').
           uploadedAt f' < t_now - FILE_TTL \<longrightarrow> \<not> toPrimitive_throws (originalName f')"
  shows "\<exists>st' out.
           step st (Janitor t_now) = Some (st', out)
           \<and> file_of st' c k = None
           \<and> filter (\<lambda>x. snd x = FileRemoved k) out
               = map (\<lambda>(i, device). (ws_dev device, FileRemoved k))
                   (filter (\<lambda>(i, device). sockets st (ws_dev device) = OPEN) (devices s))"
proof -
  have snap: "\<forall>(c', s') \<in> set (sessions st). map_of (sessions st) c' = Some s'"
    using assms(1) by auto
  from janitor_sessions_returns [OF assms(7), of st] obtain r where
    r: "janitor_sessions (t_now - FILE_TTL) (sessions st) st = Returns r" by blast
  obtain st' out where p: "r = (st', out)" by (cases r)
  from janitor_sessions_removed [OF assms(1) snap assms(2,3,4,5,6,7)] r p
  have "file_of st' c k = None
        \<and> filter (\<lambda>x. snd x = FileRemoved k) out
            = open_sends (sockets st) (devices s) (FileRemoved k)"
    by simp
  with r p show ?thesis by (simp add: janitor_def open_sends_def)
qed

theorem janitor_expires_files_witness:
  "distinct (map fst (sessions open_hub))
   \<and> (''AAAAAA'', open_session) \<in> set (sessions open_hub)
   \<and> distinct (map fst (files open_session))
   \<and> (fileF, open_file) \<in> set (files open_session)
   \<and> uploadedAt open_file < 1802000 - FILE_TTL
   \<and> \<not> toPrimitive_throws (originalName open_file)
   \<and> (\<exists>st' out.
        step open_hub (Janitor 1802000) = Some (st', out)
        \<and> file_of st' ''AAAAAA'' fileF = None
        \<and> filter (\<lambda>x. snd x = FileRemoved fileF) out
            = [(1, FileRemoved fileF), (2, FileRemoved fileF)])"
proof -
  have h1: "distinct (map fst (sessions open_hub))" by (simp add: open_hub_def)
  have h2: "(''AAAAAA'', open_session) \<in> set (sessions open_hub)" by (simp add: open_hub_def)
  have h3: "distinct (map fst (files open_session))" by (simp add: open_session_def)
  have h4: "(fileF, open_file) \<in> set (files open_session)" by (simp add: open_session_def)
  have h5: "uploadedAt open_file < 1802000 - FILE_TTL"
    by (simp add: open_file_def FILE_TTL_def)
  have h6: "\<forall>(c', s') \<in> set (sessions open_hub).
              c' \<noteq> ''AAAAAA'' \<longrightarrow> fileF \<notin> fst ` set (files s')"
    by (simp add: open_hub_def)
  have n: "\<not> toPrimitive_throws (originalName open_file)" by (simp add: open_file_def)
  then have h7: "\<forall>(c', s') \<in> set (sessions open_hub). \<forall>(k', f') \<in> set (files s').
           uploadedAt f' < 1802000 - FILE_TTL \<longrightarrow> \<not> toPrimitive_throws (originalName f')"
    by (simp add: open_hub_def open_session_def)
  have d: "map (\<lambda>(i, device). (ws_dev device, FileRemoved fileF))
             (filter (\<lambda>(i, device). sockets open_hub (ws_dev device) = OPEN)
                (devices open_session))
           = [(1, FileRemoved fileF), (2, FileRemoved fileF)]"
    by (simp add: open_session_def two_devices_def open_hub_def)
  from janitor_expires_files [OF h1 h2 h3 h4 h5 h6 h7] h1 h2 h3 h4 h5 n
  show ?thesis unfolding d by blast
qed

text \<open>
  When the name of an expired file cannot be converted, the sweep stops at that file:
  it has removed and announced it, the expired file after it is still stored, and the
  tick does not return.
\<close>

lemma janitor_stops_at_unconvertible_name:
  "sends_of (step unnamed_hub (Janitor 1802000)) = None
   \<and> file_of (fst (reached (janitor unnamed_hub 1802000))) ''AAAAAA'' fileF = None
   \<and> map_option id_file (file_of (fst (reached (janitor unnamed_hub 1802000))) ''AAAAAA'' fileG)
       = Some fileG
   \<and> snd (reached (janitor unnamed_hub 1802000))
       = [(1, FileRemoved fileF), (2, FileRemoved fileF)]"
  by code_simp

text \<open>
  C7, as stated, fails. \<open>B\<close> has joined the session of \<open>A\<close> and its socket has started
  closing (its \<open>close\<close> event has not been handled yet) when the janitor expires the
  file: the file is removed, \<open>B\<close> is still a member of the session, and the only
  \<open>file_removed\<close> goes to \<open>A\<close>.
\<close>

theorem janitor_closing_member_counterexample:
  "members_after (run initial
       [ev_create, ev_join, ev_start, SocketState 2 CLOSING, Janitor 1802000])
     ''AAAAAA'' = Some [devA, devB]
   \<and> file_after (run initial
       [ev_create, ev_join, ev_start, SocketState 2 CLOSING, Janitor 1802000])
     ''AAAAAA'' fileF = None
   \<and> sends_of (run initial
       [ev_create, ev_join, ev_start, SocketState 2 CLOSING, Janitor 1802000])
     = Some [(1, SessionCreated ''AAAAAA'' devA 1),
         (2, SessionJoined ''AAAAAA'' devB 2),
         (1, DeviceJoined devB (JStr ''iPhone'') (JStr ''iphone'') 2),
         (1, FileStartAck fileF (JStr ''hi.txt'')),
         (1, FileRemoved fileF)]"
  by code_simp

end
